theory Spec2Isabelle
  imports Main "HOL-Library.Word"
begin

section \<open>Results and errors\<close>

text \<open>
  The loaders of \<^verbatim>\<open>yocto_obj.h\<close> either return a scene or do not: \<^verbatim>\<open>return 0\<close> when a
  file cannot be opened, and the process stops where an \<^verbatim>\<open>assert\<close> fails. Reads outside a
  buffer, through a null or stale pointer, are undefined in C++; the model stops there too.
  \<^item> \<open>IoError\<close>: \<^verbatim>\<open>fopen\<close> returned null (\<^verbatim>\<open>yo_load_obj\<close>, \<^verbatim>\<open>yo__load_mtl\<close>, \<^verbatim>\<open>yo_load_objbin\<close>);
  \<^item> \<open>AssertFailed\<close>: an \<^verbatim>\<open>assert\<close> of the source does not hold;
  \<^item> \<open>Undefined\<close>: the source reads out of range, reads a token the line does not have,
    or builds a string from a null pointer;
  \<^item> \<open>MagicMismatch\<close>: the binary dump does not start with \<^verbatim>\<open>yo__binmagic\<close>;
  \<^item> \<open>LengthError\<close>: \<^verbatim>\<open>resize\<close> of a vector with a count that is negative as \<^verbatim>\<open>int\<close>, which
    throws as \<^verbatim>\<open>size_t\<close>.
\<close>

datatype error = IoError | AssertFailed | Undefined | MagicMismatch | LengthError

definition ebind :: "error + 'a \<Rightarrow> ('a \<Rightarrow> error + 'b) \<Rightarrow> error + 'b" where
  "ebind m f = (case m of Inl e \<Rightarrow> Inl e | Inr x \<Rightarrow> f x)"

definition assert :: "bool \<Rightarrow> error + unit" where
  "assert b = (if b then Inr () else Inl AssertFailed)"

text \<open>\<^verbatim>\<open>xs[i]\<close> on a \<^verbatim>\<open>std::vector\<close> with a C \<^verbatim>\<open>int\<close> index.\<close>

definition at :: "'a list \<Rightarrow> int \<Rightarrow> error + 'a" where
  "at xs i = (if 0 \<le> i \<and> i < int (length xs) then Inr (xs ! nat i) else Inl Undefined)"

section \<open>Data model\<close>

text \<open>
  The float type \<open>'f\<close> and \<^verbatim>\<open>atof\<close> belong to the C library; the model takes the type as a
  parameter (with the constants 0 and 1 the source writes) and \<^verbatim>\<open>atof\<close> as an argument.
  Field names follow the source; a suffix tells apart fields that share a name in the
  source: \<open>_d\<close> for \<^verbatim>\<open>yo__vertdata\<close>, \<open>_e\<close> for \<^verbatim>\<open>yo__elemdata\<close>, \<open>_h\<close> for \<^verbatim>\<open>yo__vhash\<close>,
  \<open>_s\<close> for \<^verbatim>\<open>yo_shape\<close>, \<open>_m\<close> for \<^verbatim>\<open>yo_material\<close>, \<open>_t\<close> for \<^verbatim>\<open>yo_texture\<close>,
  \<open>_c\<close> for \<^verbatim>\<open>yo_camera\<close>, \<open>_v\<close> for \<^verbatim>\<open>yo_env\<close>, \<open>_sc\<close> for \<^verbatim>\<open>yo_scene\<close>.
\<close>

type_synonym 'f ym_vec2f = "'f \<times> 'f"
type_synonym 'f ym_vec3f = "'f \<times> 'f \<times> 'f"
type_synonym 'f ym_affine3f = "'f list"

definition yo_etype_null :: int where "yo_etype_null = 0"
definition yo_etype_point :: int where "yo_etype_point = 1"
definition yo_etype_line :: int where "yo_etype_line = 2"
definition yo_etype_triangle :: int where "yo_etype_triangle = 3"
definition yo_etype_polyline :: int where "yo_etype_polyline = 12"
definition yo_etype_polygon :: int where "yo_etype_polygon = 13"

record 'f yo_shape =
  name_s :: string
  groupname_s :: string
  matname_s :: string
  matid_s :: int
  nelems_s :: int
  elem_s :: "int list"
  etype_s :: int
  nverts_s :: int
  pos_s :: "'f ym_vec3f list"
  norm_s :: "'f ym_vec3f list"
  texcoord_s :: "'f ym_vec2f list"
  color_s :: "'f ym_vec3f list"
  radius_s :: "'f list"
  xformed_s :: bool
  xform_s :: "'f ym_affine3f"

record 'f yo_material =
  name_m :: string
  illum :: int
  ke :: "'f ym_vec3f"
  ka :: "'f ym_vec3f"
  kd :: "'f ym_vec3f"
  ks :: "'f ym_vec3f"
  kr :: "'f ym_vec3f"
  kt :: "'f ym_vec3f"
  ns :: 'f
  ior :: 'f
  op :: 'f
  ke_txt :: string
  ka_txt :: string
  kd_txt :: string
  ks_txt :: string
  kr_txt :: string
  kt_txt :: string
  ns_txt :: string
  op_txt :: string
  ior_txt :: string
  bump_txt :: string
  disp_txt :: string
  ke_txtid :: int
  ka_txtid :: int
  kd_txtid :: int
  ks_txtid :: int
  kr_txtid :: int
  kt_txtid :: int
  ns_txtid :: int
  op_txtid :: int
  ior_txtid :: int
  bump_txtid :: int
  disp_txtid :: int

record 'f yo_texture =
  path_t :: string
  width_t :: int
  height_t :: int
  ncomp :: int
  pixels :: "'f list"

record 'f yo_camera =
  name_c :: string
  from_c :: "'f ym_vec3f"
  to_c :: "'f ym_vec3f"
  up_c :: "'f ym_vec3f"
  width_c :: 'f
  height_c :: 'f
  aperture :: 'f

record 'f yo_env =
  name_v :: string
  matname_v :: string
  matid_v :: int
  from_v :: "'f ym_vec3f"
  to_v :: "'f ym_vec3f"
  up_v :: "'f ym_vec3f"

record 'f yo_scene =
  shapes_sc :: "'f yo_shape list"
  materials_sc :: "'f yo_material list"
  textures_sc :: "'f yo_texture list"
  cameras_sc :: "'f yo_camera list"
  envs_sc :: "'f yo_env list"

record yo__vert =
  pos :: int
  texcoord :: int
  norm :: int
  color :: int
  radius :: int
  vid :: int

record 'f yo__vertdata =
  pos_d :: "'f ym_vec3f list"
  texcoord_d :: "'f ym_vec2f list"
  norm_d :: "'f ym_vec3f list"
  color_d :: "'f ym_vec3f list"
  radius_d :: "'f list"

record yo__elemdata =
  etype_e :: int
  elem_e :: "int list"

definition yo__vhash_size :: int where "yo__vhash_size = 1048576"

record yo__vhash =
  nverts_h :: int
  v :: "int \<Rightarrow> yo__vert list"

section \<open>C library functions the loader calls\<close>

text \<open>
  \<^verbatim>\<open>isspace\<close>, \<^verbatim>\<open>tolower\<close> and \<^verbatim>\<open>atoi\<close> in the C locale, on character codes. \<^verbatim>\<open>atoi\<close> is
  \<^verbatim>\<open>(int) strtol(s, NULL, 10)\<close> as in glibc, with a \<^verbatim>\<open>long\<close> of 64 bits and an \<^verbatim>\<open>int\<close> of 32:
  \<^verbatim>\<open>strtol\<close> stops at the bounds of \<^verbatim>\<open>long\<close>, and the conversion to \<^verbatim>\<open>int\<close> keeps the low
  32 bits in two's complement.
\<close>

definition isspace :: "char \<Rightarrow> bool" where
  "isspace c = (of_char c \<in> {9, 10, 11, 12, 13, 32 :: nat})"

definition isdigit :: "char \<Rightarrow> bool" where
  "isdigit c = (48 \<le> (of_char c :: nat) \<and> (of_char c :: nat) \<le> 57)"

definition tolower :: "char \<Rightarrow> int" where
  "tolower c = (let n = (of_char c :: nat) in if 65 \<le> n \<and> n \<le> 90 then int n + 32 else int n)"

fun atoi_digits :: "int \<Rightarrow> string \<Rightarrow> int" where
  "atoi_digits acc [] = acc"
| "atoi_digits acc (c # cs) =
     (if isdigit c then atoi_digits (10 * acc + (of_char c - 48)) cs else acc)"

definition strtol :: "string \<Rightarrow> int" where
  "strtol s =
     (let n = (case dropWhile isspace s of
                 [] \<Rightarrow> 0
               | c # cs \<Rightarrow> if c = CHR ''-'' then - atoi_digits 0 cs
                          else if c = CHR ''+'' then atoi_digits 0 cs
                          else atoi_digits 0 (c # cs))
      in max (- 9223372036854775808) (min 9223372036854775807 n))"

definition to_int :: "int \<Rightarrow> int" where
  "to_int n = (n + 2147483648) mod 4294967296 - 2147483648"

definition atoi :: "string \<Rightarrow> int" where
  "atoi s = to_int (strtol s)"

text \<open>A \<^verbatim>\<open>char*\<close> read as a C string ends at the first NUL.\<close>

definition c_str :: "string \<Rightarrow> string" where
  "c_str s = takeWhile (\<lambda>c. c \<noteq> CHR 0x00) s"

text \<open>
  \<^verbatim>\<open>while (fgets(line, 4096, file))\<close>: the file's text is cut after each newline, and after
  4095 characters where a line is longer.
\<close>

fun fgets_lines :: "string \<Rightarrow> string \<Rightarrow> string list" where
  "fgets_lines cur [] = (if cur = [] then [] else [cur])"
| "fgets_lines cur (c # cs) =
     (if c = CHR 0x0A \<or> length cur + 1 = 4095 then (cur @ [c]) # fgets_lines [] cs
      else fgets_lines (cur @ [c]) cs)"

section \<open>String comparison without case\<close>

text \<open>
  \<^verbatim>\<open>yo__stricmp\<close> walks both C strings while the lowered characters agree and returns
  the difference of the lowered characters where it stops; the end of a string is the
  character 0.
\<close>

fun stricmp_loop :: "string \<Rightarrow> string \<Rightarrow> int" where
  "stricmp_loop [] [] = 0"
| "stricmp_loop [] (b # bs) = 0 - tolower b"
| "stricmp_loop (a # as) [] = tolower a - 0"
| "stricmp_loop (a # as) (b # bs) =
     (if tolower a = tolower b then stricmp_loop as bs else tolower a - tolower b)"

definition yo__stricmp :: "string \<Rightarrow> string \<Rightarrow> int" where
  "yo__stricmp s1 s2 = stricmp_loop (c_str s1) (c_str s2)"

section \<open>Tokenizer\<close>

text \<open>
  \<^verbatim>\<open>yo__splitws\<close> overwrites white space with NUL and records where each token starts,
  until the string ends or \<open>maxsplits\<close> tokens have started; the list of tokens built so
  far stands for \<^verbatim>\<open>splits[0..n-1]\<close>, and \<open>prev0\<close> for \<^verbatim>\<open>!(*(str - 1))\<close>. Once the loop has
  stopped the rest of the string stays in the last token.
\<close>

fun splitws_loop :: "nat \<Rightarrow> string \<Rightarrow> string list \<Rightarrow> bool \<Rightarrow> string list" where
  "splitws_loop maxsplits [] toks prev0 = toks"
| "splitws_loop maxsplits (c # cs) toks prev0 =
     (if length toks < maxsplits then
        (if isspace c then splitws_loop maxsplits cs toks True
         else if toks = [] \<or> prev0 then splitws_loop maxsplits cs (toks @ [[c]]) False
         else splitws_loop maxsplits cs (butlast toks @ [last toks @ [c]]) False)
      else (if toks = [] then [] else butlast toks @ [last toks @ (c # cs)]))"

definition yo__splitws :: "string \<Rightarrow> nat \<Rightarrow> string list" where
  "yo__splitws str maxsplits = splitws_loop maxsplits (c_str str) [] False"

text \<open>\<^verbatim>\<open>tok[i]\<close>: an entry past \<open>ntok\<close> is stale or was never written.\<close>

definition tok_at :: "string list \<Rightarrow> nat \<Rightarrow> error + string" where
  "tok_at toks i = (if i < length toks then Inr (toks ! i) else Inl Undefined)"

definition yo__parse_float :: "(string \<Rightarrow> 'f) \<Rightarrow> string list \<Rightarrow> error + 'f" where
  "yo__parse_float atof tok = ebind (tok_at tok 0) (\<lambda>a. Inr (atof a))"

definition yo__parse_float2 :: "(string \<Rightarrow> 'f) \<Rightarrow> string list \<Rightarrow> error + 'f ym_vec2f" where
  "yo__parse_float2 atof tok =
     ebind (tok_at tok 0) (\<lambda>a. ebind (tok_at tok 1) (\<lambda>b. Inr (atof a, atof b)))"

definition yo__parse_float3 :: "(string \<Rightarrow> 'f) \<Rightarrow> string list \<Rightarrow> error + 'f ym_vec3f" where
  "yo__parse_float3 atof tok =
     ebind (tok_at tok 0) (\<lambda>a. ebind (tok_at tok 1) (\<lambda>b. ebind (tok_at tok 2) (\<lambda>c.
       Inr (atof a, atof b, atof c))))"

definition yo__parse_affine3f :: "(string \<Rightarrow> 'f) \<Rightarrow> string list \<Rightarrow> error + 'f ym_affine3f" where
  "yo__parse_affine3f atof tok =
     (if 12 \<le> length tok then Inr (map atof (take 12 tok)) else Inl Undefined)"

section \<open>Vertex references and the vertex hash\<close>

text \<open>
  The first loop of \<^verbatim>\<open>yo__parse_vert\<close> ends the string at every slash and keeps the start
  of the first five parts.
\<close>

fun split_slash :: "string \<Rightarrow> string list" where
  "split_slash [] = [[]]"
| "split_slash (c # cs) =
     (if c = CHR ''/'' then [] # split_slash cs
      else (case split_slash cs of [] \<Rightarrow> [[c]] | x # xs \<Rightarrow> (c # x) # xs))"

definition vert_splits :: "string \<Rightarrow> string list" where
  "vert_splits str = take 5 (split_slash (c_str str))"

text \<open>
  The second loop: \<^verbatim>\<open>f[i]\<close> is \<open>-1\<close> where \<^verbatim>\<open>splits[i]\<close> is null, and otherwise
  \<^verbatim>\<open>atoi(splits[i])\<close>, counted from the end of pool \<open>i\<close> when negative and lowered by one
  when not. \<^verbatim>\<open>l[i]\<close> is the size of pool \<open>i\<close> in \<^verbatim>\<open>obj_vert\<close>.
\<close>

definition vert_index :: "string list \<Rightarrow> nat \<Rightarrow> int \<Rightarrow> int" where
  "vert_index splits i l =
     (if i < length splits then
        (let f = atoi (splits ! i) in if f < 0 then l + f else f - 1)
      else -1)"

definition vert_indices :: "string \<Rightarrow> 'f yo__vertdata \<Rightarrow> yo__vert" where
  "vert_indices str obj_vert =
     (let splits = vert_splits str in
      \<lparr> pos = vert_index splits 0 (int (length (pos_d obj_vert))),
        texcoord = vert_index splits 1 (int (length (texcoord_d obj_vert))),
        norm = vert_index splits 2 (int (length (norm_d obj_vert))),
        color = vert_index splits 3 (int (length (color_d obj_vert))),
        radius = vert_index splits 4 (int (length (radius_d obj_vert))),
        vid = -1 \<rparr>)"

text \<open>The remainder of C++: the sign of the dividend, the quotient rounded to zero.\<close>

definition c_rem :: "int \<Rightarrow> int \<Rightarrow> int" where
  "c_rem a b = (if a < 0 then - ((- a) mod b) else a mod b)"

definition same_vert :: "yo__vert \<Rightarrow> yo__vert \<Rightarrow> bool" where
  "same_vert a b \<longleftrightarrow> pos a = pos b \<and> texcoord a = texcoord b \<and> norm a = norm b \<and>
     color a = color b \<and> radius a = radius b"

text \<open>The loop over one bucket: the first index whose five references agree, or \<open>-1\<close>.\<close>

fun vhash_find :: "yo__vert \<Rightarrow> yo__vert list \<Rightarrow> int \<Rightarrow> int" where
  "vhash_find x [] i = -1"
| "vhash_find x (e # es) i = (if same_vert x e then i else vhash_find x es (i + 1))"

definition yo__parse_vert ::
  "string \<Rightarrow> yo__vhash \<Rightarrow> 'f yo__vertdata \<Rightarrow> error + (yo__vert \<times> yo__vhash)" where
  "yo__parse_vert str vhash obj_vert =
     (let x = vert_indices str obj_vert;
          hidx = c_rem (pos x) yo__vhash_size
      in if hidx < 0 then Inl Undefined
         else
           (let p = vhash_find x (v vhash hidx) 0
            in if p \<ge> 0 then Inr (v vhash hidx ! nat p, vhash)
               else
                 (let x' = x\<lparr>vid := nverts_h vhash\<rparr>
                  in Inr (x', vhash\<lparr> v := (v vhash)(hidx := v vhash hidx @ [x']),
                                      nverts_h := nverts_h vhash + 1 \<rparr>))))"

text \<open>
  \<^verbatim>\<open>yo__add_shape_vert\<close>. The test \<^verbatim>\<open>v.vid < vert->pos.size()\<close> compares \<^verbatim>\<open>int\<close> with
  \<^verbatim>\<open>size_t\<close>: a negative \<open>vid\<close> converts to a value above every size.
\<close>

definition push_if :: "int \<Rightarrow> 'a list \<Rightarrow> 'a list \<Rightarrow> error + 'a list" where
  "push_if i dst pool = (if i \<ge> 0 then ebind (at pool i) (\<lambda>a. Inr (dst @ [a])) else Inr dst)"

definition yo__add_shape_vert ::
  "'f yo__vertdata \<Rightarrow> yo__vert \<Rightarrow> 'f yo__vertdata \<Rightarrow> error + 'f yo__vertdata" where
  "yo__add_shape_vert vert x obj_vert =
     (if 0 \<le> vid x \<and> vid x < int (length (pos_d vert)) then Inr vert
      else
        ebind (push_if (pos x) (pos_d vert) (pos_d obj_vert)) (\<lambda>p.
        ebind (push_if (norm x) (norm_d vert) (norm_d obj_vert)) (\<lambda>n.
        ebind (push_if (texcoord x) (texcoord_d vert) (texcoord_d obj_vert)) (\<lambda>t.
        ebind (push_if (color x) (color_d vert) (color_d obj_vert)) (\<lambda>c.
        ebind (push_if (radius x) (radius_d vert) (radius_d obj_vert)) (\<lambda>r.
          Inr \<lparr> pos_d = p, texcoord_d = t, norm_d = n, color_d = c, radius_d = r \<rparr>))))))"

definition vhash_clear :: "yo__vhash \<Rightarrow> yo__vhash" where
  "vhash_clear vhash = vhash\<lparr> nverts_h := 0, v := (\<lambda>i. []) \<rparr>"

section \<open>Flushing a shape\<close>

text \<open>The loop that sets \<^verbatim>\<open>matid\<close>: the first material whose name compares equal.\<close>

fun find_matid :: "string \<Rightarrow> 'f yo_material list \<Rightarrow> int \<Rightarrow> int" where
  "find_matid matname [] i = -1"
| "find_matid matname (m # ms) i =
     (if yo__stricmp matname (name_m m) = 0 then i else find_matid matname ms (i + 1))"

text \<open>
  The scan of a polygon or polyline buffer, \<^verbatim>\<open>for (int f = 0; f < nelems;)\<close>. A count
  below zero moves \<open>f\<close> backwards, so the loop need not end: it is a partial function,
  with \<open>None\<close> for a scan that does not return. The result is \<open>(maxf, minf, nelems)\<close>.
\<close>

partial_function (option) scan_runs ::
  "int list \<Rightarrow> int \<Rightarrow> int \<Rightarrow> int \<Rightarrow> int \<Rightarrow> (error + int \<times> int \<times> int) option" where
  "scan_runs elemd f maxf minf n =
     (if f < int (length elemd) then
        (case at elemd f of
           Inl e \<Rightarrow> Some (Inl e)
         | Inr nf \<Rightarrow> scan_runs elemd (f + nf + 1)
                      (if nf > maxf then nf else maxf) (if nf < minf then nf else minf) (n + 1))
      else Some (Inr (maxf, minf, n)))"

declare scan_runs.simps [code]

text \<open>
  The \<^verbatim>\<open>memcpy\<close> loop: run \<open>e\<close> is the \<open>maxf\<close> indices after position \<open>e * (maxf + 1)\<close>.
\<close>

fun copy_runs :: "int list \<Rightarrow> nat \<Rightarrow> nat list \<Rightarrow> error + int list" where
  "copy_runs elemd maxf [] = Inr []"
| "copy_runs elemd maxf (e # es) =
     (let off = e * (maxf + 1) + 1
      in if off + maxf \<le> length elemd
         then ebind (copy_runs elemd maxf es) (\<lambda>r. Inr (take maxf (drop off elemd) @ r))
         else Inl Undefined)"

text \<open>
  Modelled from the spec: \<^verbatim>\<open>ym_identity_affine3f\<close> of \<^verbatim>\<open>yocto_math.h\<close>, the identity as a
  3x4 affine transform in column-major order.
\<close>

definition ym_identity_affine3f :: "'f::{zero,one} ym_affine3f" where
  "ym_identity_affine3f = [1, 0, 0, 0, 1, 0, 0, 0, 1, 0, 0, 0]"

text \<open>
  The element part of \<^verbatim>\<open>yo__add_shape\<close>: \<open>(etype, nelems, elem)\<close> of the new shape. A scan
  that does not return is the error \<open>Undefined\<close>.
\<close>

definition shape_elems :: "yo__elemdata \<Rightarrow> error + (int \<times> int \<times> int list)" where
  "shape_elems elem =
     (if etype_e elem = yo_etype_point \<or> etype_e elem = yo_etype_line \<or>
         etype_e elem = yo_etype_triangle
      then Inr (etype_e elem, int (length (elem_e elem)) div etype_e elem, elem_e elem)
      else if etype_e elem = yo_etype_polygon \<or> etype_e elem = yo_etype_polyline
      then (case scan_runs (elem_e elem) 0 (-1) 1000000 0 of
              None \<Rightarrow> Inl Undefined
            | Some (Inl e) \<Rightarrow> Inl e
            | Some (Inr (maxf, minf, n)) \<Rightarrow>
                ebind (assert (minf > 0)) (\<lambda>_.
                  if minf = maxf \<and> maxf < 4
                  then ebind (copy_runs (elem_e elem) (nat maxf) [0..<nat n]) (\<lambda>r.
                         Inr (maxf, n, r))
                  else Inr (etype_e elem, n, elem_e elem)))
      else Inl AssertFailed)"

definition yo__add_shape ::
  "'f::{zero,one} yo_shape list \<Rightarrow> 'f yo_material list \<Rightarrow> string \<Rightarrow> string \<Rightarrow> string \<Rightarrow>
   'f ym_affine3f \<Rightarrow> yo__elemdata \<Rightarrow> 'f yo__vertdata \<Rightarrow> yo__vhash \<Rightarrow>
   error + ('f yo_shape list \<times> yo__elemdata \<times> 'f yo__vertdata \<times> yo__vhash)" where
  "yo__add_shape shapes materials name matname groupname xform elem vert vhash =
     (if elem_e elem = [] then Inr (shapes, elem, vert, vhash)
      else
        (let nv = length (pos_d vert) in
         ebind (assert (nv = length (pos_d vert) \<or> pos_d vert = [])) (\<lambda>_.
         ebind (assert (nv = length (norm_d vert) \<or> norm_d vert = [])) (\<lambda>_.
         ebind (assert (nv = length (texcoord_d vert) \<or> texcoord_d vert = [])) (\<lambda>_.
         ebind (assert (nv = length (color_d vert) \<or> color_d vert = [])) (\<lambda>_.
         ebind (assert (nv = length (radius_d vert) \<or> radius_d vert = [])) (\<lambda>_.
         ebind (shape_elems elem) (\<lambda>(et, ne, el).
           Inr (shapes @
                  [\<lparr> name_s = name, groupname_s = groupname, matname_s = matname,
                     matid_s = find_matid matname materials 0,
                     nelems_s = ne, elem_s = el, etype_s = et,
                     nverts_s = int nv,
                     pos_s = pos_d vert, norm_s = norm_d vert, texcoord_s = texcoord_d vert,
                     color_s = color_d vert, radius_s = radius_d vert,
                     xformed_s = (xform \<noteq> ym_identity_affine3f), xform_s = xform \<rparr>],
                \<lparr> etype_e = 0, elem_e = [] \<rparr>,
                \<lparr> pos_d = [], texcoord_d = [], norm_d = [], color_d = [], radius_d = [] \<rparr>,
                vhash_clear vhash)))))))))"

section \<open>Cameras, environments, textures and materials\<close>

definition yo__add_camera ::
  "'f::{zero,one} yo_camera list \<Rightarrow> string \<Rightarrow> yo__vert \<Rightarrow> yo__vert \<Rightarrow> 'f yo__vertdata \<Rightarrow>
   yo__vhash \<Rightarrow> error + ('f yo_camera list \<times> yo__vhash)" where
  "yo__add_camera cameras name from to obj_vert vhash =
     ebind (at (pos_d obj_vert) (pos from)) (\<lambda>cfrom.
     ebind (at (pos_d obj_vert) (pos to)) (\<lambda>cto.
     ebind (if norm from \<ge> 0 then at (norm_d obj_vert) (norm from) else Inr (0, 1, 0)) (\<lambda>cup.
     ebind (if texcoord to \<ge> 0 then ebind (at (texcoord_d obj_vert) (texcoord to)) (\<lambda>t. Inr (fst t))
            else Inr 1) (\<lambda>cwidth.
     ebind (if texcoord to \<ge> 0 then ebind (at (texcoord_d obj_vert) (texcoord to)) (\<lambda>t. Inr (snd t))
            else Inr 1) (\<lambda>cheight.
     ebind (if texcoord from \<ge> 0
            then ebind (at (texcoord_d obj_vert) (texcoord from)) (\<lambda>t. Inr (fst t))
            else Inr 0) (\<lambda>caperture.
       Inr (cameras @
              [\<lparr> name_c = name, from_c = cfrom, to_c = cto, up_c = cup, width_c = cwidth,
                 height_c = cheight, aperture = caperture \<rparr>],
            vhash_clear vhash)))))))"

definition yo__add_env ::
  "'f::{zero,one} yo_env list \<Rightarrow> string \<Rightarrow> string \<Rightarrow> yo__vert \<Rightarrow> yo__vert \<Rightarrow>
   'f yo__vertdata \<Rightarrow> yo__vhash \<Rightarrow> error + ('f yo_env list \<times> yo__vhash)" where
  "yo__add_env envs name matname from to obj_vert vhash =
     ebind (at (pos_d obj_vert) (pos from)) (\<lambda>efrom.
     ebind (at (pos_d obj_vert) (pos to)) (\<lambda>eto.
     ebind (if norm from \<ge> 0 then at (norm_d obj_vert) (norm from) else Inr (0, 1, 0)) (\<lambda>eup.
       Inr (envs @
              [\<lparr> name_v = name, matname_v = matname, matid_v = -1, from_v = efrom,
                 to_v = eto, up_v = eup \<rparr>],
            vhash_clear vhash))))"

fun find_texture :: "string \<Rightarrow> 'f yo_texture list \<Rightarrow> int \<Rightarrow> int" where
  "find_texture path [] i = -1"
| "find_texture path (t # ts) i = (if path_t t = path then i else find_texture path ts (i + 1))"

definition yo__add_unique_texture ::
  "'f yo_texture list \<Rightarrow> string \<Rightarrow> int \<times> 'f yo_texture list" where
  "yo__add_unique_texture textures path =
     (if path = [] then (-1, textures)
      else
        (let p = find_texture path textures 0
         in if p \<ge> 0 then (p, textures)
            else (int (length textures),
                  textures @ [\<lparr> path_t = path, width_t = 0, height_t = 0, ncomp = 0,
                                 pixels = [] \<rparr>])))"

text \<open>\<^verbatim>\<open>yo_material()\<close>, the default member initialisers, with the name set.\<close>

definition yo__empty_material :: "string \<Rightarrow> 'f::{zero,one} yo_material" where
  "yo__empty_material name =
     \<lparr> name_m = name, illum = 0,
       ke = (0, 0, 0), ka = (0, 0, 0), kd = (0, 0, 0), ks = (0, 0, 0), kr = (0, 0, 0),
       kt = (0, 0, 0), ns = 1, ior = 1, op = 1,
       ke_txt = [], ka_txt = [], kd_txt = [], ks_txt = [], kr_txt = [], kt_txt = [],
       ns_txt = [], op_txt = [], ior_txt = [], bump_txt = [], disp_txt = [],
       ke_txtid = -1, ka_txtid = -1, kd_txtid = -1, ks_txtid = -1, kr_txtid = -1,
       kt_txtid = -1, ns_txtid = -1, op_txtid = -1, ior_txtid = -1, bump_txtid = -1,
       disp_txtid = -1 \<rparr>"

definition yo__add_empty_material ::
  "'f::{zero,one} yo_material list \<Rightarrow> string \<Rightarrow> 'f yo_material list" where
  "yo__add_empty_material materials name = materials @ [yo__empty_material name]"

text \<open>
  The state of \<^verbatim>\<open>yo__load_mtl\<close>: the materials, the textures and the pointer \<^verbatim>\<open>mat\<close>, which
  is null (\<open>None\<close>) until the first \<^verbatim>\<open>newmtl\<close> and the index of the last material after.
  \<open>mtl_set\<close> is an assignment through \<^verbatim>\<open>mat\<close>; \<open>mtl_map\<close> is the pair of statements of a
  texture line.
\<close>

type_synonym 'f mtl_state = "'f yo_material list \<times> 'f yo_texture list \<times> nat option"

definition mtl_set ::
  "'f mtl_state \<Rightarrow> error + 'a \<Rightarrow> ('a \<Rightarrow> 'f yo_material \<Rightarrow> 'f yo_material) \<Rightarrow> error + 'f mtl_state"
  where
  "mtl_set st val upd =
     (case st of (materials, textures, mat) \<Rightarrow>
        ebind val (\<lambda>a.
          case mat of
            None \<Rightarrow> Inl Undefined
          | Some i \<Rightarrow> Inr (materials[i := upd a (materials ! i)], textures, mat)))"

definition mtl_map ::
  "'f mtl_state \<Rightarrow> string list \<Rightarrow> (string \<Rightarrow> int \<Rightarrow> 'f yo_material \<Rightarrow> 'f yo_material) \<Rightarrow>
   error + 'f mtl_state" where
  "mtl_map st mtok upd =
     (case st of (materials, textures, mat) \<Rightarrow>
        ebind (tok_at mtok 1) (\<lambda>path.
          case mat of
            None \<Rightarrow> Inl Undefined
          | Some i \<Rightarrow>
              (case yo__add_unique_texture textures path of (txtid, textures') \<Rightarrow>
                 Inr (materials[i := upd path txtid (materials ! i)], textures', mat))))"

definition yo__load_mtl_line ::
  "(string \<Rightarrow> 'f) \<Rightarrow> 'f::{zero,one} mtl_state \<Rightarrow> string \<Rightarrow> error + 'f mtl_state" where
  "yo__load_mtl_line atof st mline =
     (let mtok = yo__splitws mline 10; f3 = yo__parse_float3 atof (drop 1 mtok);
          f1 = yo__parse_float atof (drop 1 mtok)
      in if mtok = [] then Inr st
         else if take 1 (mtok ! 0) = ''#'' \<or> take 1 (mtok ! 0) = ''/'' then Inr st
         else if mtok ! 0 = ''newmtl'' then
           (case st of (materials, textures, mat) \<Rightarrow>
              ebind (tok_at mtok 1) (\<lambda>name.
                Inr (yo__add_empty_material materials name, textures, Some (length materials))))
         else if mtok ! 0 = ''illum'' then
           mtl_set st (ebind (tok_at mtok 1) (\<lambda>a. Inr (atoi a))) (\<lambda>a m. m\<lparr>illum := a\<rparr>)
         else if mtok ! 0 = ''Ke'' then mtl_set st f3 (\<lambda>a m. m\<lparr>ke := a\<rparr>)
         else if mtok ! 0 = ''Ka'' then mtl_set st f3 (\<lambda>a m. m\<lparr>ka := a\<rparr>)
         else if mtok ! 0 = ''Kd'' then mtl_set st f3 (\<lambda>a m. m\<lparr>kd := a\<rparr>)
         else if mtok ! 0 = ''Ks'' then mtl_set st f3 (\<lambda>a m. m\<lparr>ks := a\<rparr>)
         else if mtok ! 0 = ''Kr'' then mtl_set st f3 (\<lambda>a m. m\<lparr>kr := a\<rparr>)
         else if mtok ! 0 = ''Tr'' then mtl_set st f3 (\<lambda>a m. m\<lparr>kt := a\<rparr>)
         else if mtok ! 0 = ''Ns'' then mtl_set st f1 (\<lambda>a m. m\<lparr>ns := a\<rparr>)
         else if mtok ! 0 = ''d'' then mtl_set st f1 (\<lambda>a m. m\<lparr>op := a\<rparr>)
         else if mtok ! 0 = ''Tr'' then mtl_set st f1 (\<lambda>a m. m\<lparr>op := a\<rparr>)
         else if mtok ! 0 = ''Ni'' then mtl_set st f1 (\<lambda>a m. m\<lparr>ior := a\<rparr>)
         else if mtok ! 0 = ''map_Ke'' then
           mtl_map st mtok (\<lambda>p i m. m\<lparr>ke_txt := p, ke_txtid := i\<rparr>)
         else if mtok ! 0 = ''map_Ka'' then
           mtl_map st mtok (\<lambda>p i m. m\<lparr>ka_txt := p, ka_txtid := i\<rparr>)
         else if mtok ! 0 = ''map_Kd'' then
           mtl_map st mtok (\<lambda>p i m. m\<lparr>kd_txt := p, kd_txtid := i\<rparr>)
         else if mtok ! 0 = ''map_Ks'' then
           mtl_map st mtok (\<lambda>p i m. m\<lparr>ks_txt := p, ks_txtid := i\<rparr>)
         else if mtok ! 0 = ''map_Kr'' then
           mtl_map st mtok (\<lambda>p i m. m\<lparr>kr_txt := p, kr_txtid := i\<rparr>)
         else if mtok ! 0 = ''map_Tr'' then
           mtl_map st mtok (\<lambda>p i m. m\<lparr>kt_txt := p, kt_txtid := i\<rparr>)
         else if mtok ! 0 = ''map_Ns'' then
           mtl_map st mtok (\<lambda>p i m. m\<lparr>ns_txt := p, ns_txtid := i\<rparr>)
         else if mtok ! 0 = ''map_d'' then
           mtl_map st mtok (\<lambda>p i m. m\<lparr>op_txt := p, op_txtid := i\<rparr>)
         else if mtok ! 0 = ''map_Tr'' then
           mtl_map st mtok (\<lambda>p i m. m\<lparr>op_txt := p, op_txtid := i\<rparr>)
         else if mtok ! 0 = ''map_Ni'' then
           mtl_map st mtok (\<lambda>p i m. m\<lparr>ior_txt := p, ior_txtid := i\<rparr>)
         else if mtok ! 0 = ''map_bump'' then
           mtl_map st mtok (\<lambda>p i m. m\<lparr>bump_txt := p, bump_txtid := i\<rparr>)
         else if mtok ! 0 = ''map_disp'' then
           mtl_map st mtok (\<lambda>p i m. m\<lparr>disp_txt := p, disp_txtid := i\<rparr>)
         else Inr st)"

fun mtl_lines ::
  "(string \<Rightarrow> 'f) \<Rightarrow> 'f::{zero,one} mtl_state \<Rightarrow> string list \<Rightarrow> error + 'f mtl_state" where
  "mtl_lines atof st [] = Inr st"
| "mtl_lines atof st (l # ls) = ebind (yo__load_mtl_line atof st l) (\<lambda>st'. mtl_lines atof st' ls)"

text \<open>
  The file system is a function from a path to the text of the file there, \<open>None\<close> where
  \<^verbatim>\<open>fopen\<close> fails.
\<close>

definition yo__load_mtl ::
  "(string \<Rightarrow> string option) \<Rightarrow> (string \<Rightarrow> 'f) \<Rightarrow> 'f::{zero,one} yo_material list \<Rightarrow>
   'f yo_texture list \<Rightarrow> string \<Rightarrow> error + ('f yo_material list \<times> 'f yo_texture list)" where
  "yo__load_mtl fs atof materials textures filename =
     (case fs filename of
        None \<Rightarrow> Inl IoError
      | Some text \<Rightarrow>
          ebind (mtl_lines atof (materials, textures, None) (fgets_lines [] text))
            (\<lambda>(materials', textures', mat). Inr (materials', textures')))"

text \<open>
  \<^verbatim>\<open>yo__split_path\<close>, the \<open>dirname\<close> result, the only one \<^verbatim>\<open>yo_load_obj\<close> asks for: the
  file name up to and with its last slash or backslash.
\<close>

fun path_sep_loop :: "string \<Rightarrow> int \<Rightarrow> int \<Rightarrow> int" where
  "path_sep_loop [] i path_sep = path_sep"
| "path_sep_loop (c # cs) i path_sep =
     path_sep_loop cs (i + 1) (if c = CHR ''/'' \<or> c = CHR 0x5C then i else path_sep)"

definition yo__split_path_dirname :: "string \<Rightarrow> string" where
  "yo__split_path_dirname filename =
     (let path_sep = path_sep_loop filename 0 (-1)
      in if path_sep \<ge> 0 then take (nat (path_sep + 1)) filename else [])"

section \<open>Loading an OBJ file\<close>

text \<open>
  The local variables of \<^verbatim>\<open>yo_load_obj\<close> that live across lines, with the suffix \<open>_l\<close>.
\<close>

record 'f load_state =
  obj_vert_l :: "'f yo__vertdata"
  shapes_l :: "'f yo_shape list"
  materials_l :: "'f yo_material list"
  textures_l :: "'f yo_texture list"
  cameras_l :: "'f yo_camera list"
  envs_l :: "'f yo_env list"
  vhash_l :: yo__vhash
  name_l :: string
  matname_l :: string
  groupname_l :: string
  xform_l :: "'f ym_affine3f"
  elem_l :: yo__elemdata
  vert_l :: "'f yo__vertdata"

text \<open>
  The call \<^verbatim>\<open>yo__add_shape(shapes, materials, name, matname, groupname, xform, elem, vert,
  vhash)\<close>, which every branch writes with the same arguments.
\<close>

definition flush :: "'f::{zero,one} load_state \<Rightarrow> error + 'f load_state" where
  "flush st =
     ebind (yo__add_shape (shapes_l st) (materials_l st) (name_l st) (matname_l st)
              (groupname_l st) (xform_l st) (elem_l st) (vert_l st) (vhash_l st))
       (\<lambda>(shapes', elem', vert', vhash').
          Inr (st\<lparr> shapes_l := shapes', elem_l := elem', vert_l := vert', vhash_l := vhash' \<rparr>))"

text \<open>
  The three vertex loops \<^verbatim>\<open>for (int t = 1; t < ntok; t++)\<close>, over the tokens after the
  keyword, on the hash, the shape's vertices and the element buffer. \<open>verts_plain\<close> is the
  loop of polygons, polylines and points; \<open>verts_fan\<close> the loop of triangulated faces;
  \<open>verts_strip\<close> the loop of lines cut into segments.
\<close>

fun verts_plain ::
  "'f yo__vertdata \<Rightarrow> string list \<Rightarrow> yo__vhash \<times> 'f yo__vertdata \<times> int list \<Rightarrow>
   error + (yo__vhash \<times> 'f yo__vertdata \<times> int list)" where
  "verts_plain obj_vert [] s = Inr s"
| "verts_plain obj_vert (tk # tks) (vhash, vert, el) =
     ebind (yo__parse_vert tk vhash obj_vert) (\<lambda>(x, vhash').
     ebind (yo__add_shape_vert vert x obj_vert) (\<lambda>vert'.
       verts_plain obj_vert tks (vhash', vert', el @ [vid x])))"

fun verts_fan ::
  "'f yo__vertdata \<Rightarrow> nat \<Rightarrow> int \<Rightarrow> string list \<Rightarrow> yo__vhash \<times> 'f yo__vertdata \<times> int list \<Rightarrow>
   error + (yo__vhash \<times> 'f yo__vertdata \<times> int list)" where
  "verts_fan obj_vert t vi0 [] s = Inr s"
| "verts_fan obj_vert t vi0 (tk # tks) (vhash, vert, el) =
     ebind (yo__parse_vert tk vhash obj_vert) (\<lambda>(x, vhash').
     ebind (yo__add_shape_vert vert x obj_vert) (\<lambda>vert'.
       (let vi0' = (if t = 1 then vid x else vi0) in
        ebind (if t > 3
               then ebind (at el (int (length el) - 1)) (\<lambda>vil. Inr (el @ [vi0', vil]))
               else Inr el) (\<lambda>el'.
          verts_fan obj_vert (t + 1) vi0' tks (vhash', vert', el' @ [vid x])))))"

fun verts_strip ::
  "'f yo__vertdata \<Rightarrow> nat \<Rightarrow> string list \<Rightarrow> yo__vhash \<times> 'f yo__vertdata \<times> int list \<Rightarrow>
   error + (yo__vhash \<times> 'f yo__vertdata \<times> int list)" where
  "verts_strip obj_vert t [] s = Inr s"
| "verts_strip obj_vert t (tk # tks) (vhash, vert, el) =
     ebind (yo__parse_vert tk vhash obj_vert) (\<lambda>(x, vhash').
     ebind (yo__add_shape_vert vert x obj_vert) (\<lambda>vert'.
        ebind (if t > 2
               then ebind (at el (int (length el) - 1)) (\<lambda>vil. Inr (el @ [vil]))
               else Inr el) (\<lambda>el'.
          verts_strip obj_vert (t + 1) tks (vhash', vert', el' @ [vid x]))))"

text \<open>
  An element record: flush when the pending type is another one, set the type, push the
  count where the type has one, and run the vertex loop.
\<close>

definition elem_record ::
  "'f::{zero,one} load_state \<Rightarrow> int \<Rightarrow> int list \<Rightarrow>
   (yo__vhash \<times> 'f yo__vertdata \<times> int list \<Rightarrow>
      error + (yo__vhash \<times> 'f yo__vertdata \<times> int list)) \<Rightarrow>
   error + 'f load_state" where
  "elem_record st et header loop =
     ebind (if etype_e (elem_l st) \<noteq> et then flush st else Inr st) (\<lambda>st1.
     ebind (loop (vhash_l st1, vert_l st1, elem_e (elem_l st1) @ header))
       (\<lambda>(vhash', vert', el').
          Inr (st1\<lparr> vhash_l := vhash', vert_l := vert',
                    elem_l := \<lparr> etype_e = et, elem_e = el' \<rparr> \<rparr>)))"

text \<open>
  \<^verbatim>\<open>ym_string((ntok > 1) ? tok[1] : 0)\<close>: with no second token the string is built from a
  null pointer.
\<close>

definition tok1_or_null :: "string list \<Rightarrow> error + string" where
  "tok1_or_null tok = (if length tok > 1 then Inr (tok ! 1) else Inl Undefined)"

text \<open>A camera or environment record parses its two vertex references.\<close>

definition parse_from_to ::
  "string list \<Rightarrow> yo__vhash \<Rightarrow> 'f yo__vertdata \<Rightarrow> error + (yo__vert \<times> yo__vert \<times> yo__vhash)"
  where
  "parse_from_to tok vhash obj_vert =
     ebind (tok_at tok 1) (\<lambda>t1.
     ebind (yo__parse_vert t1 vhash obj_vert) (\<lambda>(from, vhash1).
     ebind (tok_at tok 2) (\<lambda>t2.
     ebind (yo__parse_vert t2 vhash1 obj_vert) (\<lambda>(to, vhash2).
       Inr (from, to, vhash2)))))"

text \<open>The body of the loop over lines, one line of at most 4095 characters.\<close>

definition yo_load_obj_line ::
  "(string \<Rightarrow> string option) \<Rightarrow> (string \<Rightarrow> 'f) \<Rightarrow> string \<Rightarrow> bool \<Rightarrow> bool \<Rightarrow>
   'f::{zero,one} load_state \<Rightarrow> string \<Rightarrow> error + 'f load_state" where
  "yo_load_obj_line fs atof filename triangulate ext st line =
     (let tok = yo__splitws line 1024; ntok = length tok; ov = obj_vert_l st
      in if ntok = 0 then Inr st
         else if take 1 (tok ! 0) = ''#'' then Inr st
         else if tok ! 0 = ''v'' then
           ebind (yo__parse_float3 atof (drop 1 tok)) (\<lambda>a.
             Inr (st\<lparr> obj_vert_l := ov\<lparr> pos_d := pos_d ov @ [a] \<rparr> \<rparr>))
         else if tok ! 0 = ''vt'' then
           ebind (yo__parse_float2 atof (drop 1 tok)) (\<lambda>a.
             Inr (st\<lparr> obj_vert_l := ov\<lparr> texcoord_d := texcoord_d ov @ [a] \<rparr> \<rparr>))
         else if tok ! 0 = ''vn'' then
           ebind (yo__parse_float3 atof (drop 1 tok)) (\<lambda>a.
             Inr (st\<lparr> obj_vert_l := ov\<lparr> norm_d := norm_d ov @ [a] \<rparr> \<rparr>))
         else if tok ! 0 = ''vc'' then
           (if ext then
              ebind (yo__parse_float3 atof (drop 1 tok)) (\<lambda>a.
                Inr (st\<lparr> obj_vert_l := ov\<lparr> norm_d := norm_d ov @ [a] \<rparr> \<rparr>))
            else Inr st)
         else if tok ! 0 = ''vr'' then
           (if ext then
              ebind (yo__parse_float atof (drop 1 tok)) (\<lambda>a.
                Inr (st\<lparr> obj_vert_l := ov\<lparr> radius_d := radius_d ov @ [a] \<rparr> \<rparr>))
            else Inr st)
         else if tok ! 0 = ''xf'' then
           (if ext then
              ebind (yo__parse_affine3f atof (drop 1 tok)) (\<lambda>a. Inr (st\<lparr> xform_l := a \<rparr>))
            else Inr st)
         else if tok ! 0 = ''c'' then
           (if ext then
              ebind (flush st) (\<lambda>st1.
              ebind (parse_from_to tok (vhash_l st1) ov) (\<lambda>(from, to, vhash2).
              ebind (yo__add_camera (cameras_l st1) (name_l st1) from to ov vhash2)
                (\<lambda>(cameras', vhash3).
                   Inr (st1\<lparr> cameras_l := cameras', vhash_l := vhash3, name_l := [],
                             matname_l := [], xform_l := ym_identity_affine3f \<rparr>))))
            else Inr st)
         else if tok ! 0 = ''e'' then
           (if ext then
              ebind (flush st) (\<lambda>st1.
              ebind (parse_from_to tok (vhash_l st1) ov) (\<lambda>(from, to, vhash2).
              ebind (yo__add_env (envs_l st1) (name_l st1) (matname_l st1) from to ov vhash2)
                (\<lambda>(envs', vhash3).
                   Inr (st1\<lparr> envs_l := envs', vhash_l := vhash3, name_l := [],
                             matname_l := [], xform_l := ym_identity_affine3f \<rparr>))))
            else Inr st)
         else if tok ! 0 = ''f'' \<and> \<not> triangulate then
           elem_record st yo_etype_polygon [int ntok - 1] (verts_plain ov (drop 1 tok))
         else if tok ! 0 = ''f'' \<and> triangulate then
           elem_record st yo_etype_triangle [] (verts_fan ov 1 0 (drop 1 tok))
         else if tok ! 0 = ''l'' \<and> \<not> triangulate then
           elem_record st yo_etype_polyline [int ntok - 1] (verts_plain ov (drop 1 tok))
         else if tok ! 0 = ''l'' \<and> triangulate then
           elem_record st yo_etype_line [] (verts_strip ov 1 (drop 1 tok))
         else if tok ! 0 = ''p'' then
           elem_record st yo_etype_point [] (verts_plain ov (drop 1 tok))
         else if tok ! 0 = ''o'' then
           ebind (flush st) (\<lambda>st1.
           ebind (tok1_or_null tok) (\<lambda>n.
             Inr (st1\<lparr> name_l := n, matname_l := [], groupname_l := [],
                       xform_l := ym_identity_affine3f \<rparr>)))
         else if tok ! 0 = ''g'' then
           ebind (flush st) (\<lambda>st1.
           ebind (tok1_or_null tok) (\<lambda>n. Inr (st1\<lparr> groupname_l := n \<rparr>)))
         else if tok ! 0 = ''usemtl'' then
           ebind (flush st) (\<lambda>st1.
           ebind (tok1_or_null tok) (\<lambda>n. Inr (st1\<lparr> matname_l := n \<rparr>)))
         else if tok ! 0 = ''mtllib'' then
           ebind (tok_at tok 1) (\<lambda>t1.
           ebind (yo__load_mtl fs atof (materials_l st) (textures_l st)
                    (yo__split_path_dirname filename @ t1)) (\<lambda>(materials', textures').
             Inr (st\<lparr> materials_l := materials', textures_l := textures' \<rparr>)))
         else Inr st)"

fun load_lines ::
  "(string \<Rightarrow> string option) \<Rightarrow> (string \<Rightarrow> 'f) \<Rightarrow> string \<Rightarrow> bool \<Rightarrow> bool \<Rightarrow>
   'f::{zero,one} load_state \<Rightarrow> string list \<Rightarrow> error + 'f load_state" where
  "load_lines fs atof filename triangulate ext st [] = Inr st"
| "load_lines fs atof filename triangulate ext st (l # ls) =
     ebind (yo_load_obj_line fs atof filename triangulate ext st l)
       (\<lambda>st'. load_lines fs atof filename triangulate ext st' ls)"

definition init_state :: "'f::{zero,one} load_state" where
  "init_state =
     \<lparr> obj_vert_l = \<lparr> pos_d = [], texcoord_d = [], norm_d = [], color_d = [], radius_d = [] \<rparr>,
       shapes_l = [], materials_l = [], textures_l = [], cameras_l = [], envs_l = [],
       vhash_l = \<lparr> nverts_h = 0, v = (\<lambda>i. []) \<rparr>,
       name_l = [], matname_l = [], groupname_l = [], xform_l = ym_identity_affine3f,
       elem_l = \<lparr> etype_e = 0, elem_e = [] \<rparr>,
       vert_l = \<lparr> pos_d = [], texcoord_d = [], norm_d = [], color_d = [], radius_d = [] \<rparr> \<rparr>"

definition yo_load_obj ::
  "(string \<Rightarrow> string option) \<Rightarrow> (string \<Rightarrow> 'f) \<Rightarrow> string \<Rightarrow> bool \<Rightarrow> bool \<Rightarrow>
   error + 'f::{zero,one} yo_scene" where
  "yo_load_obj fs atof filename triangulate ext =
     (case fs filename of
        None \<Rightarrow> Inl IoError
      | Some text \<Rightarrow>
          ebind (load_lines fs atof filename triangulate ext init_state (fgets_lines [] text))
            (\<lambda>st.
          ebind (flush st) (\<lambda>st'.
            Inr \<lparr> shapes_sc = shapes_l st', materials_sc = materials_l st',
                  textures_sc = textures_l st', cameras_sc = cameras_l st',
                  envs_sc = envs_l st' \<rparr>)))"

section \<open>Loading a binary dump\<close>

text \<open>
  A dump is a memory image, read here as on a little-endian machine with 32-bit \<^verbatim>\<open>int\<close>
  and IEEE single floats: an \<^verbatim>\<open>int\<close> is four bytes in two's complement, a float the four
  bytes of its bit pattern, which the model keeps as the number below \<open>2 ^ 32\<close> that they
  spell. \<open>float_one\<close> is the pattern of 1.0.
\<close>

type_synonym float_bits = nat

definition float_one :: float_bits where
  "float_one = 0x3F800000"

fun le_nat :: "string \<Rightarrow> nat" where
  "le_nat [] = 0"
| "le_nat (b # bs) = of_char b + 256 * le_nat bs"

definition int_of_bytes :: "string \<Rightarrow> int" where
  "int_of_bytes bs =
     (let n = le_nat bs in if n < 2147483648 then int n else int n - 4294967296)"

definition float_of_bytes :: "string \<Rightarrow> float_bits" where
  "float_of_bytes bs = le_nat bs"

definition vec2f_of_bytes :: "string \<Rightarrow> float_bits ym_vec2f" where
  "vec2f_of_bytes bs = (float_of_bytes (take 4 bs), float_of_bytes (take 4 (drop 4 bs)))"

definition vec3f_of_bytes :: "string \<Rightarrow> float_bits ym_vec3f" where
  "vec3f_of_bytes bs =
     (float_of_bytes (take 4 bs), float_of_bytes (take 4 (drop 4 bs)),
      float_of_bytes (take 4 (drop 8 bs)))"

definition bytes_of_word :: "nat \<Rightarrow> string" where
  "bytes_of_word w = map (\<lambda>k. char_of (w div 256 ^ k)) [0, 1, 2, 3]"

definition bytes_of_int :: "int \<Rightarrow> string" where
  "bytes_of_int i = bytes_of_word (nat (i mod 4294967296))"

definition bytes_of_vec3f :: "float_bits ym_vec3f \<Rightarrow> string" where
  "bytes_of_vec3f x =
     (case x of (a, b, c) \<Rightarrow> bytes_of_word a @ bytes_of_word b @ bytes_of_word c)"

text \<open>
  \<^verbatim>\<open>fread(v, size, 1, file) == 1\<close> on a value whose bytes were \<open>old\<close>: with \<open>sz\<close> bytes
  left the value is read; with fewer, the bytes that are left overwrite the front of the
  value, the file is at its end and the result is false. The callers in
  \<^verbatim>\<open>yo_load_objbin\<close> drop the result.
\<close>

definition fread1 :: "nat \<Rightarrow> string \<Rightarrow> string \<Rightarrow> bool \<times> string \<times> string" where
  "fread1 sz old file =
     (if sz \<le> length file then (True, take sz file, drop sz file)
      else (False, file @ drop (length file) old, []))"

definition yo__fread_binvalue_int :: "int \<Rightarrow> string \<Rightarrow> bool \<times> int \<times> string" where
  "yo__fread_binvalue_int old file =
     (case fread1 4 (bytes_of_int old) file of (ok, bs, rest) \<Rightarrow> (ok, int_of_bytes bs, rest))"

definition yo__fread_binvalue_float ::
  "float_bits \<Rightarrow> string \<Rightarrow> bool \<times> float_bits \<times> string" where
  "yo__fread_binvalue_float old file =
     (case fread1 4 (bytes_of_word old) file of
        (ok, bs, rest) \<Rightarrow> (ok, float_of_bytes bs, rest))"

definition yo__fread_binvalue_vec3f ::
  "float_bits ym_vec3f \<Rightarrow> string \<Rightarrow> bool \<times> float_bits ym_vec3f \<times> string" where
  "yo__fread_binvalue_vec3f old file =
     (case fread1 12 (bytes_of_vec3f old) file of
        (ok, bs, rest) \<Rightarrow> (ok, vec3f_of_bytes bs, rest))"

text \<open>
  \<^verbatim>\<open>yo__fread_binvector\<close> for elements of \<open>sz\<close> bytes decoded by \<open>dec\<close>: the count, a
  \<^verbatim>\<open>resize\<close> to it, and one \<^verbatim>\<open>fread\<close> of that many elements, which fills what the file
  still has. Every caller passes the empty vector of a record just made, so the elements
  that \<^verbatim>\<open>resize\<close> adds are all of them, and they are zero.
\<close>

definition yo__fread_binvector ::
  "nat \<Rightarrow> (string \<Rightarrow> 'a) \<Rightarrow> 'a list \<Rightarrow> string \<Rightarrow> error + (bool \<times> 'a list \<times> string)" where
  "yo__fread_binvector sz dec vec file =
     (case yo__fread_binvalue_int 0 file of
        (ok, num, rest) \<Rightarrow>
          if \<not> ok then Inr (False, vec, rest)
          else if num < 0 then Inl LengthError
          else
            (let total = nat num * sz; got = take total rest;
                 buf = got @ replicate (total - length got) (CHR 0x00)
             in Inr (length got div sz = nat num,
                     map (\<lambda>k. dec (take sz (drop (k * sz) buf))) [0..<nat num],
                     drop total rest)))"

text \<open>
  \<^verbatim>\<open>yo__fread_binstr\<close>: the count, the assertion that it fits the buffer of 4096 bytes
  (compared as \<^verbatim>\<open>size_t\<close>, so a negative count fails it), that many bytes, and the
  assignment of the buffer as a C string; the buffer is not initialised, so without a NUL
  among the bytes read the assignment reads what was never written.
\<close>

definition yo__fread_binstr :: "string \<Rightarrow> string \<Rightarrow> error + (bool \<times> string \<times> string)" where
  "yo__fread_binstr s file =
     (case yo__fread_binvalue_int 0 file of
        (ok, num, rest) \<Rightarrow>
          if \<not> ok then Inr (False, s, rest)
          else
            ebind (assert (0 \<le> num \<and> num < 4095)) (\<lambda>_.
              if num \<noteq> 0 then
                (if nat num \<le> length rest then
                   (if CHR 0x00 \<in> set (take (nat num) rest)
                    then Inr (True, c_str (take (nat num) rest), drop (nat num) rest)
                    else Inl Undefined)
                 else Inr (False, s, []))
              else Inr (True, [], rest)))"

text \<open>Reads whose result the caller drops, with the rest of the work as a continuation.\<close>

definition rd_str :: "string \<Rightarrow> (string \<Rightarrow> string \<Rightarrow> error + 'a) \<Rightarrow> error + 'a" where
  "rd_str file k = ebind (yo__fread_binstr [] file) (\<lambda>(ok, s, rest). k s rest)"

definition rd_int :: "int \<Rightarrow> string \<Rightarrow> (int \<Rightarrow> string \<Rightarrow> error + 'a) \<Rightarrow> error + 'a" where
  "rd_int old file k = (case yo__fread_binvalue_int old file of (ok, i, rest) \<Rightarrow> k i rest)"

definition rd_float ::
  "float_bits \<Rightarrow> string \<Rightarrow> (float_bits \<Rightarrow> string \<Rightarrow> error + 'a) \<Rightarrow> error + 'a" where
  "rd_float old file k = (case yo__fread_binvalue_float old file of (ok, x, rest) \<Rightarrow> k x rest)"

definition rd_vec3f ::
  "float_bits ym_vec3f \<Rightarrow> string \<Rightarrow> (float_bits ym_vec3f \<Rightarrow> string \<Rightarrow> error + 'a) \<Rightarrow>
   error + 'a" where
  "rd_vec3f old file k = (case yo__fread_binvalue_vec3f old file of (ok, x, rest) \<Rightarrow> k x rest)"

definition rd_vector ::
  "nat \<Rightarrow> (string \<Rightarrow> 'b) \<Rightarrow> string \<Rightarrow> ('b list \<Rightarrow> string \<Rightarrow> error + 'a) \<Rightarrow> error + 'a" where
  "rd_vector sz dec file k =
     ebind (yo__fread_binvector sz dec [] file) (\<lambda>(ok, xs, rest). k xs rest)"

text \<open>
  Modelled from the spec: \<^verbatim>\<open>ym_zero3f\<close>, \<^verbatim>\<open>ym_y3f\<close> and \<^verbatim>\<open>ym_z3f\<close> of \<^verbatim>\<open>yocto_math.h\<close>, the
  zero vector and the unit vectors of the second and third axis, in the default member
  initialisers that \<^verbatim>\<open>resize\<close> applies before a record is read.
\<close>

definition ym_zero3f_bits :: "float_bits ym_vec3f" where "ym_zero3f_bits = (0, 0, 0)"
definition ym_y3f_bits :: "float_bits ym_vec3f" where "ym_y3f_bits = (0, float_one, 0)"
definition ym_z3f_bits :: "float_bits ym_vec3f" where "ym_z3f_bits = (0, 0, float_one)"

definition ym_identity_affine3f_bits :: "float_bits ym_affine3f" where
  "ym_identity_affine3f_bits =
     [float_one, 0, 0, 0, float_one, 0, 0, 0, float_one, 0, 0, 0]"

definition fread_camera :: "string \<Rightarrow> error + (float_bits yo_camera \<times> string)" where
  "fread_camera file =
     rd_str file (\<lambda>name f1.
     rd_vec3f ym_zero3f_bits f1 (\<lambda>from f2.
     rd_vec3f ym_z3f_bits f2 (\<lambda>to f3.
     rd_vec3f ym_y3f_bits f3 (\<lambda>up f4.
     rd_float float_one f4 (\<lambda>width f5.
     rd_float float_one f5 (\<lambda>height f6.
     rd_float 0 f6 (\<lambda>ap f7.
       Inr (\<lparr> name_c = name, from_c = from, to_c = to, up_c = up, width_c = width,
               height_c = height, aperture = ap \<rparr>, f7))))))))"

fun fread_cameras :: "nat \<Rightarrow> string \<Rightarrow> error + (float_bits yo_camera list \<times> string)" where
  "fread_cameras 0 file = Inr ([], file)"
| "fread_cameras (Suc n) file =
     ebind (fread_camera file) (\<lambda>(c, f1).
     ebind (fread_cameras n f1) (\<lambda>(cs, f2). Inr (c # cs, f2)))"

definition fread_env :: "string \<Rightarrow> error + (float_bits yo_env \<times> string)" where
  "fread_env file =
     rd_str file (\<lambda>name f1.
     rd_str f1 (\<lambda>matname f2.
     rd_vec3f ym_zero3f_bits f2 (\<lambda>from f3.
     rd_vec3f ym_z3f_bits f3 (\<lambda>to f4.
     rd_vec3f ym_y3f_bits f4 (\<lambda>up f5.
       Inr (\<lparr> name_v = name, matname_v = matname, matid_v = -1, from_v = from, to_v = to,
               up_v = up \<rparr>, f5))))))"

fun fread_envs :: "nat \<Rightarrow> string \<Rightarrow> error + (float_bits yo_env list \<times> string)" where
  "fread_envs 0 file = Inr ([], file)"
| "fread_envs (Suc n) file =
     ebind (fread_env file) (\<lambda>(e, f1).
     ebind (fread_envs n f1) (\<lambda>(es, f2). Inr (e # es, f2)))"

text \<open>
  A material: its fields in the order of the dump, then the eleven calls of
  \<^verbatim>\<open>yo__add_unique_texture\<close> on the textures of the scene.
\<close>

definition add_txt ::
  "float_bits yo_texture list \<Rightarrow> string \<Rightarrow>
   (int \<Rightarrow> float_bits yo_texture list \<Rightarrow> 'a) \<Rightarrow> 'a" where
  "add_txt textures path k =
     (case yo__add_unique_texture textures path of (i, textures') \<Rightarrow> k i textures')"

definition fread_material ::
  "float_bits yo_texture list \<Rightarrow> string \<Rightarrow>
   error + (float_bits yo_material \<times> float_bits yo_texture list \<times> string)" where
  "fread_material textures file =
     rd_str file (\<lambda>name f1.
     rd_int 0 f1 (\<lambda>m_illum f2.
     rd_vec3f ym_zero3f_bits f2 (\<lambda>m_ke f3.
     rd_vec3f ym_zero3f_bits f3 (\<lambda>m_ka f4.
     rd_vec3f ym_zero3f_bits f4 (\<lambda>m_kd f5.
     rd_vec3f ym_zero3f_bits f5 (\<lambda>m_ks f6.
     rd_vec3f ym_zero3f_bits f6 (\<lambda>m_kr f7.
     rd_vec3f ym_zero3f_bits f7 (\<lambda>m_kt f8.
     rd_float float_one f8 (\<lambda>m_ns f9.
     rd_float float_one f9 (\<lambda>m_ior f10.
     rd_float float_one f10 (\<lambda>m_op f11.
     rd_str f11 (\<lambda>t_ke f12.
     rd_str f12 (\<lambda>t_ka f13.
     rd_str f13 (\<lambda>t_kd f14.
     rd_str f14 (\<lambda>t_ks f15.
     rd_str f15 (\<lambda>t_kr f16.
     rd_str f16 (\<lambda>t_kt f17.
     rd_str f17 (\<lambda>t_ns f18.
     rd_str f18 (\<lambda>t_op f19.
     rd_str f19 (\<lambda>t_ior f20.
     rd_str f20 (\<lambda>t_bump f21.
     rd_str f21 (\<lambda>t_disp f22.
     add_txt textures t_ke (\<lambda>i_ke x1.
     add_txt x1 t_ka (\<lambda>i_ka x2.
     add_txt x2 t_kd (\<lambda>i_kd x3.
     add_txt x3 t_ks (\<lambda>i_ks x4.
     add_txt x4 t_kr (\<lambda>i_kr x5.
     add_txt x5 t_kt (\<lambda>i_kt x6.
     add_txt x6 t_ns (\<lambda>i_ns x7.
     add_txt x7 t_op (\<lambda>i_op x8.
     add_txt x8 t_ior (\<lambda>i_ior x9.
     add_txt x9 t_bump (\<lambda>i_bump x10.
     add_txt x10 t_disp (\<lambda>i_disp x11.
       Inr (\<lparr> name_m = name, illum = m_illum, ke = m_ke, ka = m_ka, kd = m_kd, ks = m_ks,
               kr = m_kr, kt = m_kt, ns = m_ns, ior = m_ior, op = m_op,
               ke_txt = t_ke, ka_txt = t_ka, kd_txt = t_kd, ks_txt = t_ks, kr_txt = t_kr,
               kt_txt = t_kt, ns_txt = t_ns, op_txt = t_op, ior_txt = t_ior,
               bump_txt = t_bump, disp_txt = t_disp,
               ke_txtid = i_ke, ka_txtid = i_ka, kd_txtid = i_kd, ks_txtid = i_ks,
               kr_txtid = i_kr, kt_txtid = i_kt, ns_txtid = i_ns, op_txtid = i_op,
               ior_txtid = i_ior, bump_txtid = i_bump, disp_txtid = i_disp \<rparr>,
            x11, f22))))))))))))))))))))))))))))))))))"

fun fread_materials ::
  "nat \<Rightarrow> float_bits yo_texture list \<Rightarrow> string \<Rightarrow>
   error + (float_bits yo_material list \<times> float_bits yo_texture list \<times> string)" where
  "fread_materials 0 textures file = Inr ([], textures, file)"
| "fread_materials (Suc n) textures file =
     ebind (fread_material textures file) (\<lambda>(m, t1, f1).
     ebind (fread_materials n t1 f1) (\<lambda>(ms, t2, f2). Inr (m # ms, t2, f2)))"

text \<open>
  A shape: the twelve reads of the loop body into a default shape, then the clearing of
  colour and radius when \<open>ext\<close> is set, then the material index, found by comparing names
  with \<^verbatim>\<open>==\<close>.
\<close>

definition fread_shape :: "string \<Rightarrow> error + (float_bits yo_shape \<times> string)" where
  "fread_shape file =
     rd_str file (\<lambda>name f1.
     rd_str f1 (\<lambda>groupname f2.
     rd_str f2 (\<lambda>matname f3.
     rd_int 0 f3 (\<lambda>ne f4.
     rd_vector 4 int_of_bytes f4 (\<lambda>el f5.
     rd_int 0 f5 (\<lambda>et f6.
     rd_int 0 f6 (\<lambda>nv f7.
     rd_vector 12 vec3f_of_bytes f7 (\<lambda>p f8.
     rd_vector 12 vec3f_of_bytes f8 (\<lambda>n f9.
     rd_vector 8 vec2f_of_bytes f9 (\<lambda>t f10.
     rd_vector 12 vec3f_of_bytes f10 (\<lambda>c f11.
     rd_vector 4 float_of_bytes f11 (\<lambda>r f12.
       Inr (\<lparr> name_s = name, groupname_s = groupname, matname_s = matname, matid_s = -1,
               nelems_s = ne, elem_s = el, etype_s = et, nverts_s = nv,
               pos_s = p, norm_s = n, texcoord_s = t, color_s = c, radius_s = r,
               xformed_s = False, xform_s = ym_identity_affine3f_bits \<rparr>, f12)))))))))))))"

fun find_matid_exact :: "string \<Rightarrow> 'f yo_material list \<Rightarrow> int \<Rightarrow> int" where
  "find_matid_exact matname [] j = -1"
| "find_matid_exact matname (m # ms) j =
     (if matname = name_m m then j else find_matid_exact matname ms (j + 1))"

definition objbin_shape ::
  "bool \<Rightarrow> float_bits yo_material list \<Rightarrow> string \<Rightarrow> error + (float_bits yo_shape \<times> string)"
  where
  "objbin_shape ext materials file =
     ebind (fread_shape file) (\<lambda>(s, rest).
       Inr (s\<lparr> color_s := (if ext then [] else color_s s),
                radius_s := (if ext then [] else radius_s s),
                matid_s := find_matid_exact (matname_s s) materials 0 \<rparr>, rest))"

fun objbin_shapes ::
  "bool \<Rightarrow> float_bits yo_material list \<Rightarrow> nat \<Rightarrow> string \<Rightarrow>
   error + (float_bits yo_shape list \<times> string)" where
  "objbin_shapes ext materials 0 file = Inr ([], file)"
| "objbin_shapes ext materials (Suc n) file =
     ebind (objbin_shape ext materials file) (\<lambda>(s, f1).
     ebind (objbin_shapes ext materials n f1) (\<lambda>(ss, f2). Inr (s # ss, f2)))"

text \<open>
  The magic number. It does not fit an \<^verbatim>\<open>int\<close>, so \<^verbatim>\<open>magic != yo__binmagic\<close> compares as
  \<^verbatim>\<open>unsigned\<close>: the \<^verbatim>\<open>int\<close> read is taken modulo \<open>2 ^ 32\<close>.
\<close>

definition yo__binmagic :: int where
  "yo__binmagic = 0xaf45e782"

text \<open>
  A count read from the dump and the \<^verbatim>\<open>resize\<close> to it.
\<close>

definition rd_count :: "string \<Rightarrow> (nat \<Rightarrow> string \<Rightarrow> error + 'a) \<Rightarrow> error + 'a" where
  "rd_count file k =
     rd_int 0 file (\<lambda>n rest. if n < 0 then Inl LengthError else k (nat n) rest)"

text \<open>The dump up to its materials: magic, cameras, environments, materials.\<close>

definition objbin_head ::
  "string \<Rightarrow>
   error + (float_bits yo_camera list \<times> float_bits yo_env list \<times> float_bits yo_material list \<times>
            float_bits yo_texture list \<times> string)" where
  "objbin_head file =
     rd_int 0 file (\<lambda>magic f1.
       if magic mod 4294967296 \<noteq> yo__binmagic then Inl MagicMismatch
       else
         rd_count f1 (\<lambda>ncameras f2.
         ebind (fread_cameras ncameras f2) (\<lambda>(cams, f3).
         rd_count f3 (\<lambda>nenvs f4.
         ebind (fread_envs nenvs f4) (\<lambda>(es, f5).
         rd_count f5 (\<lambda>nmaterials f6.
         ebind (fread_materials nmaterials [] f6) (\<lambda>(ms, ts, f7).
           Inr (cams, es, ms, ts, f7))))))))"

definition yo_load_objbin ::
  "(string \<Rightarrow> string option) \<Rightarrow> string \<Rightarrow> bool \<Rightarrow> error + float_bits yo_scene" where
  "yo_load_objbin fs filename ext =
     (case fs filename of
        None \<Rightarrow> Inl IoError
      | Some file \<Rightarrow>
          ebind (objbin_head file) (\<lambda>(cams, es, ms, ts, f7).
          rd_count f7 (\<lambda>nshapes f8.
          ebind (objbin_shapes ext ms nshapes f8) (\<lambda>(ss, f9).
            Inr \<lparr> shapes_sc = ss, materials_sc = ms, textures_sc = ts,
                  cameras_sc = (if \<not> ext then [] else cams),
                  envs_sc = (if \<not> ext then [] else es) \<rparr>))))"

text \<open>
  The shape records of a dump as the field reads alone give them, and what
  \<^verbatim>\<open>yo__fwrite_binvalue\<close>, \<^verbatim>\<open>yo__fwrite_binvector\<close> and \<^verbatim>\<open>yo__fwrite_binstr\<close> write.
\<close>

fun fread_shapes :: "nat \<Rightarrow> string \<Rightarrow> error + (float_bits yo_shape list \<times> string)" where
  "fread_shapes 0 file = Inr ([], file)"
| "fread_shapes (Suc n) file =
     ebind (fread_shape file) (\<lambda>(s, f1).
     ebind (fread_shapes n f1) (\<lambda>(ss, f2). Inr (s # ss, f2)))"

definition dumped_shapes ::
  "(string \<Rightarrow> string option) \<Rightarrow> string \<Rightarrow> error + float_bits yo_shape list" where
  "dumped_shapes fs filename =
     (case fs filename of
        None \<Rightarrow> Inl IoError
      | Some file \<Rightarrow>
          ebind (objbin_head file) (\<lambda>(cams, es, ms, ts, f7).
          rd_count f7 (\<lambda>nshapes f8.
          ebind (fread_shapes nshapes f8) (\<lambda>(ss, f9). Inr ss))))"

definition yo__fwrite_binvalue_int :: "int \<Rightarrow> string" where
  "yo__fwrite_binvalue_int i = bytes_of_int i"

definition yo__fwrite_binvector :: "('a \<Rightarrow> string) \<Rightarrow> 'a list \<Rightarrow> string" where
  "yo__fwrite_binvector enc xs = bytes_of_int (int (length xs)) @ concat (map enc xs)"

definition yo__fwrite_binstr :: "string \<Rightarrow> string" where
  "yo__fwrite_binstr s = bytes_of_int (int (length s) + 1) @ s @ [CHR 0x00]"

section \<open>Reading the structures as the source indexes them\<close>



text \<open>
  The layout of a polygon or polyline buffer, as the header of the source describes it and
  as the loader writes it: the runs one after the other, each behind its number of
  vertices.
\<close>

definition rle_runs :: "int list list \<Rightarrow> int list" where
  "rle_runs runs = concat (map (\<lambda>r. int (length r) # r) runs)"

text \<open>The largest and the smallest count of a list of runs, as the scan folds them.\<close>

definition run_max :: "int \<Rightarrow> int list list \<Rightarrow> int" where
  "run_max = foldl (\<lambda>a r. if int (length r) > a then int (length r) else a)"

definition run_min :: "int \<Rightarrow> int list list \<Rightarrow> int" where
  "run_min = foldl (\<lambda>a r. if int (length r) < a then int (length r) else a)"

text \<open>The attribute pools of \<open>b\<close> are those of \<open>a\<close> with more entries behind.\<close>

definition pools_grow :: "'f yo__vertdata \<Rightarrow> 'f yo__vertdata \<Rightarrow> bool" where
  "pools_grow a b \<longleftrightarrow>
     (\<exists>ps ts ns cs rs.
        b = \<lparr> pos_d = pos_d a @ ps, texcoord_d = texcoord_d a @ ts, norm_d = norm_d a @ ns,
              color_d = color_d a @ cs, radius_d = radius_d a @ rs \<rparr>)"

text \<open>
  The shape that \<^verbatim>\<open>yo__add_shape\<close> builds from the loader's variables, given its element
  part.
\<close>

definition flushed_shape ::
  "'f::{zero,one} load_state \<Rightarrow> int \<Rightarrow> int \<Rightarrow> int list \<Rightarrow> 'f yo_shape" where
  "flushed_shape st et ne el =
     \<lparr> name_s = name_l st, groupname_s = groupname_l st, matname_s = matname_l st,
       matid_s = find_matid (matname_l st) (materials_l st) 0,
       nelems_s = ne, elem_s = el, etype_s = et,
       nverts_s = int (length (pos_d (vert_l st))),
       pos_s = pos_d (vert_l st), norm_s = norm_d (vert_l st),
       texcoord_s = texcoord_d (vert_l st),
       color_s = color_d (vert_l st), radius_s = radius_d (vert_l st),
       xformed_s = (xform_l st \<noteq> ym_identity_affine3f), xform_s = xform_l st \<rparr>"

text \<open>Each per-vertex array of a shape is empty or as long as \<open>nverts\<close> says.\<close>

definition regular :: "'f yo_shape \<Rightarrow> bool" where
  "regular s \<longleftrightarrow>
     (pos_s s = [] \<or> int (length (pos_s s)) = nverts_s s) \<and>
     (norm_s s = [] \<or> int (length (norm_s s)) = nverts_s s) \<and>
     (texcoord_s s = [] \<or> int (length (texcoord_s s)) = nverts_s s) \<and>
     (color_s s = [] \<or> int (length (color_s s)) = nverts_s s) \<and>
     (radius_s s = [] \<or> int (length (radius_s s)) = nverts_s s)"

text \<open>
  Names equal without regard to case, and the index of the first material of a list whose
  name equals a given one so, \<open>-1\<close> where there is none.
\<close>

definition ci_equal :: "string \<Rightarrow> string \<Rightarrow> bool" where
  "ci_equal a b \<longleftrightarrow> map tolower (c_str a) = map tolower (c_str b)"

definition first_ci_match :: "int \<Rightarrow> string \<Rightarrow> 'f yo_material list \<Rightarrow> bool" where
  "first_ci_match i n ms \<longleftrightarrow>
     (i = -1 \<and> (\<forall>m\<in>set ms. \<not> ci_equal n (name_m m))) \<or>
     (0 \<le> i \<and> nat i < length ms \<and> ci_equal n (name_m (ms ! nat i)) \<and>
      (\<forall>j<nat i. \<not> ci_equal n (name_m (ms ! j))))"

text \<open>
  While \<^verbatim>\<open>yo__load_mtl\<close> runs, the materials it was given stay in front, unchanged, and
  \<^verbatim>\<open>mat\<close> points behind them.
\<close>

definition mtl_keeps :: "'f yo_material list \<Rightarrow> 'f mtl_state \<Rightarrow> bool" where
  "mtl_keeps ms0 st \<longleftrightarrow>
     (case st of (materials, textures, mat) \<Rightarrow>
        take (length ms0) materials = ms0 \<and>
        (\<forall>i. mat = Some i \<longrightarrow> length ms0 \<le> i \<and> i < length materials))"

text \<open>
  Every shape emitted so far has its \<open>matid\<close> resolved against a front part of the
  materials read so far.
\<close>

definition resolved :: "'f load_state \<Rightarrow> bool" where
  "resolved st \<longleftrightarrow>
     (\<forall>s\<in>set (shapes_l st). \<exists>ms rest. materials_l st = ms @ rest \<and>
        first_ci_match (matid_s s) (matname_s s) ms)"

text \<open>
  The pending element buffer is of a variable type and one of its runs has no vertex.
\<close>

definition zero_run_pending :: "'f load_state \<Rightarrow> bool" where
  "zero_run_pending st \<longleftrightarrow>
     (etype_e (elem_l st) = yo_etype_polygon \<or> etype_e (elem_l st) = yo_etype_polyline) \<and>
     (\<exists>runs. elem_e (elem_l st) = rle_runs runs \<and> [] \<in> set runs)"

text \<open>
  The element buffer after the loop of a triangulated face, from the buffer before and
  the local ids of the record's vertices: what \<open>verts_fan\<close> pushes, without the parsing.
\<close>

fun fan_out :: "nat \<Rightarrow> int \<Rightarrow> int list \<Rightarrow> int list \<Rightarrow> int list" where
  "fan_out t vi0 el [] = el"
| "fan_out t vi0 el (i # ids) =
     fan_out (t + 1) (if t = 1 then i else vi0)
       ((if t > 3 then el @ [if t = 1 then i else vi0, last el] else el) @ [i]) ids"

text \<open>
  The state of a shape under assembly, against the list \<open>ts\<close> of the distinct references
  it has seen, in the order of their first occurrence (each with \<open>vid = -1\<close>, as the
  second loop of \<^verbatim>\<open>yo__parse_vert\<close> leaves it): every reference has a position and points
  into the pools; the hash holds, for each \<open>k\<close>, the reference \<open>ts ! k\<close> with \<open>vid = k\<close>, in
  the bucket of its position, and nothing else; each per-vertex array holds one entry
  for each reference that has the attribute, in the order of \<open>ts\<close>.
\<close>

definition refs_in_pools :: "yo__vert \<Rightarrow> 'f yo__vertdata \<Rightarrow> bool" where
  "refs_in_pools t obj_vert \<longleftrightarrow>
     0 \<le> pos t \<and> pos t < int (length (pos_d obj_vert)) \<and>
     norm t < int (length (norm_d obj_vert)) \<and>
     texcoord t < int (length (texcoord_d obj_vert)) \<and>
     color t < int (length (color_d obj_vert)) \<and>
     radius t < int (length (radius_d obj_vert))"

definition pend_ok ::
  "yo__vert list \<Rightarrow> yo__vhash \<Rightarrow> 'f yo__vertdata \<Rightarrow> 'f yo__vertdata \<Rightarrow> bool" where
  "pend_ok ts vhash vert obj_vert \<longleftrightarrow>
     distinct ts \<and>
     (\<forall>t\<in>set ts. vid t = -1 \<and> refs_in_pools t obj_vert) \<and>
     nverts_h vhash = int (length ts) \<and>
     (\<forall>h e. e \<in> set (v vhash h) \<longleftrightarrow>
        (\<exists>k<length ts. e = (ts ! k)\<lparr>vid := int k\<rparr> \<and>
                        h = c_rem (pos (ts ! k)) yo__vhash_size)) \<and>
     pos_d vert = map (\<lambda>t. pos_d obj_vert ! nat (pos t)) ts \<and>
     norm_d vert = map (\<lambda>t. norm_d obj_vert ! nat (norm t)) (filter (\<lambda>t. 0 \<le> norm t) ts) \<and>
     texcoord_d vert =
       map (\<lambda>t. texcoord_d obj_vert ! nat (texcoord t)) (filter (\<lambda>t. 0 \<le> texcoord t) ts) \<and>
     color_d vert = map (\<lambda>t. color_d obj_vert ! nat (color t)) (filter (\<lambda>t. 0 \<le> color t) ts) \<and>
     radius_d vert =
       map (\<lambda>t. radius_d obj_vert ! nat (radius t)) (filter (\<lambda>t. 0 \<le> radius t) ts)"

text \<open>The distinct elements of \<open>s\<close> followed by those of \<open>rs\<close>, each where it first occurs.\<close>

definition first_seen :: "'a list \<Rightarrow> 'a list \<Rightarrow> 'a list" where
  "first_seen = foldl (\<lambda>s t. if t \<in> set s then s else s @ [t])"

text \<open>
  The words of a line: its longest runs of characters that are not white space, in
  order, which is what the split of Python gives and what the header of \<^verbatim>\<open>yo__splitws\<close>
  names. \<open>ws_split\<close> carries the word under way.
\<close>

fun ws_split :: "string \<Rightarrow> string \<Rightarrow> string list" where
  "ws_split cur [] = (if cur = [] then [] else [cur])"
| "ws_split cur (c # cs) =
     (if isspace c then (if cur = [] then ws_split [] cs else cur # ws_split [] cs)
      else ws_split (cur @ [c]) cs)"

definition ws_words :: "string \<Rightarrow> string list" where
  "ws_words s = ws_split [] s"

text \<open>
  The words of a line of which the loop of \<^verbatim>\<open>yo__splitws\<close> has the tokens \<open>toks\<close> and the
  rest \<open>cs\<close> to read; and a list of words with \<open>sp\<close> behind the last one.
\<close>

definition words_of :: "string list \<Rightarrow> bool \<Rightarrow> string \<Rightarrow> string list" where
  "words_of toks prev0 cs =
     (if toks = [] \<or> prev0 then toks @ ws_split [] cs
      else butlast toks @ ws_split (last toks) cs)"

definition pad_last :: "string list \<Rightarrow> string \<Rightarrow> string list" where
  "pad_last ws sp = (if ws = [] then [] else butlast ws @ [last ws @ sp])"

section \<open>Example inputs\<close>

text \<open>
  Floats of the examples are integers, read by \<open>atoi\<close>. \<open>example_pools\<close> holds three
  positions and two texture coordinates.
\<close>

definition example_pools :: "int yo__vertdata" where
  "example_pools =
     \<lparr> pos_d = [(0, 0, 0), (1, 0, 0), (1, 1, 0)], texcoord_d = [(0, 0), (1, 1)],
       norm_d = [], color_d = [], radius_d = [] \<rparr>"

definition example_vert4 :: "int yo__vertdata" where
  "example_vert4 =
     \<lparr> pos_d = [(0, 0, 0), (1, 0, 0), (1, 1, 0), (0, 1, 0)], texcoord_d = [],
       norm_d = [], color_d = [], radius_d = [] \<rparr>"

definition example_vhash :: yo__vhash where
  "example_vhash = \<lparr> nverts_h = 0, v = (\<lambda>i. []) \<rparr>"

definition newline :: string where
  "newline = [CHR 0x0A]"

text \<open>A file with a position, a colour record and a point that refers to normal 1.\<close>

definition example_fs_vc :: "string \<Rightarrow> string option" where
  "example_fs_vc p =
     (if p = ''a.obj''
      then Some (''v 0 0 0'' @ newline @ ''vc 1 2 3'' @ newline @ ''p 1//1'' @ newline)
      else None)"

text \<open>A quad; a point with a texture coordinate and a point without; the empty disk.\<close>

definition example_fs_quad :: "string \<Rightarrow> string option" where
  "example_fs_quad p =
     (if p = ''a.obj''
      then Some (''v 0 0 0'' @ newline @ ''v 1 0 0'' @ newline @ ''v 1 1 0'' @ newline @
                 ''v 0 1 0'' @ newline @ ''f 1 2 3 4'' @ newline)
      else None)"

definition example_fs_irregular :: "string \<Rightarrow> string option" where
  "example_fs_irregular p =
     (if p = ''a.obj''
      then Some (''v 0 0 0'' @ newline @ ''vt 0 0'' @ newline @ ''p 1/1 1'' @ newline)
      else None)"

definition no_files :: "string \<Rightarrow> string option" where
  "no_files p = None"

text \<open>The loader's state after a position and a point: one pending element.\<close>

definition example_pending :: "int load_state" where
  "example_pending =
     projr (load_lines no_files atoi ''a.obj'' False False init_state
              [''v 0 0 0'' @ newline, ''p 1'' @ newline])"

text \<open>A scene that uses the second of three materials, and one the library lacks.\<close>

definition example_fs_mtl :: "string \<Rightarrow> string option" where
  "example_fs_mtl p =
     (if p = ''a.obj''
      then Some (''mtllib m.mtl'' @ newline @ ''v 0 0 0'' @ newline @ ''usemtl GOLD'' @ newline @
                 ''p 1'' @ newline @ ''usemtl none'' @ newline @ ''p 1'' @ newline)
      else if p = ''m.mtl''
      then Some (''newmtl iron'' @ newline @ ''newmtl Gold'' @ newline @ ''newmtl gold'' @ newline)
      else None)"

text \<open>
  A scene whose material library is named between two shapes of the same material.
\<close>

definition example_fs_late_mtl :: "string \<Rightarrow> string option" where
  "example_fs_late_mtl p =
     (if p = ''a.obj''
      then Some (''usemtl a'' @ newline @ ''v 0 0 0'' @ newline @ ''p 1'' @ newline @
                 ''usemtl a'' @ newline @ ''mtllib m.mtl'' @ newline @ ''p 1'' @ newline)
      else if p = ''m.mtl'' then Some (''newmtl a'' @ newline)
      else None)"

text \<open>A face record without vertices, before a position.\<close>

definition example_fs_empty_face :: "string \<Rightarrow> string option" where
  "example_fs_empty_face p =
     (if p = ''a.obj'' then Some (''f'' @ newline @ ''v 0 0 0'' @ newline) else None)"

text \<open>
  The positions of the quad, its face, and the loader's state after the positions,
  triangulating.
\<close>

definition example_quad_positions :: string where
  "example_quad_positions =
     ''v 0 0 0'' @ newline @ ''v 1 0 0'' @ newline @ ''v 1 1 0'' @ newline @
     ''v 0 1 0'' @ newline"

definition example_four_positions :: "int load_state" where
  "example_four_positions =
     projr (load_lines example_fs_quad atoi ''a.obj'' True False init_state
              (fgets_lines [] example_quad_positions))"

text \<open>A face of 1024 vertices, all of them the first position, behind that position.\<close>

definition example_face_1024 :: string where
  "example_face_1024 = ''f'' @ concat (replicate 1024 '' 1'') @ newline"

definition example_fs_face_1024 :: "string \<Rightarrow> string option" where
  "example_fs_face_1024 p =
     (if p = ''a.obj'' then Some ((''v 0 0 0'' @ newline) @ example_face_1024 @ []) else None)"

text \<open>
  One position, and a point record whose first reference resolves to position
  \<open>1 - 1048577\<close>, a multiple of the number of buckets.
\<close>

definition example_one_position :: "int yo__vertdata" where
  "example_one_position =
     \<lparr> pos_d = [(0, 0, 0)], texcoord_d = [], norm_d = [], color_d = [], radius_d = [] \<rparr>"

definition example_fs_dup :: "string \<Rightarrow> string option" where
  "example_fs_dup p =
     (if p = ''a.obj'' then Some (''v 0 0 0'' @ newline @ ''p -1048577 1 1'' @ newline)
      else None)"

definition example_no_vert :: "int yo__vertdata" where
  "example_no_vert =
     \<lparr> pos_d = [], texcoord_d = [], norm_d = [], color_d = [], radius_d = [] \<rparr>"

text \<open>
  A dump with no camera, environment or material and one shape, a single point with a
  colour and a radius.
\<close>

definition example_dump :: string where
  "example_dump =
     yo__fwrite_binvalue_int yo__binmagic @
     yo__fwrite_binvalue_int 0 @ yo__fwrite_binvalue_int 0 @ yo__fwrite_binvalue_int 0 @
     yo__fwrite_binvalue_int 1 @
     yo__fwrite_binstr ''p'' @ yo__fwrite_binstr [] @ yo__fwrite_binstr [] @
     yo__fwrite_binvalue_int 1 @ yo__fwrite_binvector bytes_of_int [0] @
     yo__fwrite_binvalue_int yo_etype_point @ yo__fwrite_binvalue_int 1 @
     yo__fwrite_binvector bytes_of_vec3f [(0, 0, 0)] @
     yo__fwrite_binvector bytes_of_vec3f [] @
     yo__fwrite_binvector bytes_of_vec3f [] @
     yo__fwrite_binvector bytes_of_vec3f [(float_one, 0, 0)] @
     yo__fwrite_binvector bytes_of_word [float_one]"

definition example_fs_dump :: "string \<Rightarrow> string option" where
  "example_fs_dump = (\<lambda>_. None)(''p.objbin'' \<mapsto> example_dump)"


section \<open>Vertex references\<close>

lemma vhash_find_found:
  "vhash_find x es i = p \<Longrightarrow> 0 \<le> i \<Longrightarrow> 0 \<le> p \<Longrightarrow>
   i \<le> p \<and> nat (p - i) < length es \<and> same_vert x (es ! nat (p - i))"
proof (induction es arbitrary: i)
  case Nil
  then show ?case by simp
next
  case (Cons e es)
  show ?case
  proof (cases "same_vert x e")
    case True
    with Cons.prems show ?thesis by simp
  next
    case False
    with Cons.prems have "vhash_find x es (i + 1) = p" by simp
    from Cons.IH[OF this] Cons.prems
    have a: "i + 1 \<le> p" "nat (p - (i + 1)) < length es" "same_vert x (es ! nat (p - (i + 1)))"
      by auto
    from a(1) have "nat (p - i) = Suc (nat (p - (i + 1)))" by simp
    with a Cons.prems show ?thesis by simp
  qed
qed

text \<open>What a successful \<^verbatim>\<open>yo__parse_vert\<close> did: found an entry, or appended one.\<close>

lemma parse_vert_cases:
  assumes "yo__parse_vert str vhash obj_vert = Inr (x, vhash')"
  defines "x0 \<equiv> vert_indices str obj_vert"
  defines "h \<equiv> c_rem (pos (vert_indices str obj_vert)) yo__vhash_size"
  defines "p \<equiv> vhash_find (vert_indices str obj_vert)
                 (v vhash (c_rem (pos (vert_indices str obj_vert)) yo__vhash_size)) 0"
  shows "0 \<le> h \<and>
         (0 \<le> p \<and> x = v vhash h ! nat p \<and> vhash' = vhash \<or>
          p < 0 \<and> x = x0\<lparr>vid := nverts_h vhash\<rparr> \<and>
            vhash' = vhash\<lparr> v := (v vhash)(h := v vhash h @ [x0\<lparr>vid := nverts_h vhash\<rparr>]),
                            nverts_h := nverts_h vhash + 1 \<rparr>)"
  using assms(1) unfolding x0_def h_def p_def
  by (auto simp add: yo__parse_vert_def Let_def split: if_splits)




lemma atoi_range: "- 2147483648 \<le> atoi s \<and> atoi s < 2147483648"
  by (simp add: atoi_def to_int_def)





section \<open>Colour records\<close>

text \<open>
  C2. A \<open>vc\<close> record read with extensions on leaves the colour pool as it was and
  appends its three floats to the normal pool; a later reference to that normal index
  puts the colour into the shape's normals. The claim, that the value goes to the colour
  pool and to no other, does not hold of the code; the record does not flush.
\<close>

theorem vc_record_appends_to_normals:
  "map_sum id obj_vert_l
     (yo_load_obj_line (\<lambda>p. None) atoi ''a.obj'' False True init_state
        (''vc 1 2 3'' @ newline)) =
     Inr \<lparr> pos_d = [], texcoord_d = [], norm_d = [(1, 2, 3)], color_d = [], radius_d = [] \<rparr> \<and>
   map_sum id shapes_l
     (yo_load_obj_line (\<lambda>p. None) atoi ''a.obj'' False True init_state
        (''vc 1 2 3'' @ newline)) = Inr [] \<and>
   yo_load_obj example_fs_vc atoi ''a.obj'' False True =
     Inr \<lparr> shapes_sc =
             [\<lparr> name_s = [], groupname_s = [], matname_s = [], matid_s = - 1,
                nelems_s = 1, elem_s = [0], etype_s = 1, nverts_s = 1,
                pos_s = [(0, 0, 0)], norm_s = [(1, 2, 3)], texcoord_s = [],
                color_s = [], radius_s = [], xformed_s = False,
                xform_s = [1, 0, 0, 0, 1, 0, 0, 0, 1, 0, 0, 0] \<rparr>],
           materials_sc = [], textures_sc = [], cameras_sc = [], envs_sc = [] \<rparr>"
  by code_simp

section \<open>Element compaction\<close>

lemma rle_runs_Cons: "rle_runs (r # rs) = int (length r) # r @ rle_runs rs"
  by (simp add: rle_runs_def)

lemma rle_runs_Nil: "rle_runs [] = []"
  by (simp add: rle_runs_def)

lemma scan_runs_rle:
  "scan_runs (pre @ rle_runs runs) (int (length pre)) mx mn n =
     Some (Inr (run_max mx runs, run_min mn runs, n + int (length runs)))"
proof (induction runs arbitrary: pre mx mn n)
  case Nil
  show ?case by (subst scan_runs.simps) (simp add: rle_runs_Nil run_max_def run_min_def)
next
  case (Cons r rs)
  have at: "at (pre @ rle_runs (r # rs)) (int (length pre)) = Inr (int (length r))"
    by (simp add: at_def rle_runs_Cons nth_append)
  have nxt: "int (length pre) + int (length r) + 1 = int (length (pre @ int (length r) # r))"
    by simp
  have buf: "pre @ rle_runs (r # rs) = (pre @ int (length r) # r) @ rle_runs rs"
    by (simp add: rle_runs_Cons)
  have lt: "int (length pre) < int (length (pre @ rle_runs (r # rs)))"
    by (simp add: rle_runs_Cons)
  show ?case
    apply (subst scan_runs.simps)
    apply (simp only: lt at if_True sum.case nxt)
    apply (subst buf)
    apply (subst Cons.IH)
    apply (simp add: run_max_def run_min_def)
    done
qed

lemma run_max_ge: "mx \<le> run_max mx runs"
proof (induction runs arbitrary: mx)
  case Nil then show ?case by (simp add: run_max_def)
next
  case (Cons a runs)
  have "mx \<le> (if int (length a) > mx then int (length a) else mx)" by simp
  also have "\<dots> \<le> run_max (if int (length a) > mx then int (length a) else mx) runs"
    by (rule Cons.IH)
  finally show ?case by (simp add: run_max_def)
qed

lemma run_min_le: "run_min mn runs \<le> mn"
proof (induction runs arbitrary: mn)
  case Nil then show ?case by (simp add: run_min_def)
next
  case (Cons a runs)
  have "run_min (if int (length a) < mn then int (length a) else mn) runs
          \<le> (if int (length a) < mn then int (length a) else mn)"
    by (rule Cons.IH)
  also have "\<dots> \<le> mn" by simp
  finally show ?case by (simp add: run_min_def)
qed

lemma run_max_bound: "r \<in> set runs \<Longrightarrow> int (length r) \<le> run_max mx runs"
proof (induction runs arbitrary: mx)
  case Nil then show ?case by simp
next
  case (Cons a runs)
  show ?case
  proof (cases "r = a")
    case True
    have "int (length a) \<le> (if int (length a) > mx then int (length a) else mx)" by simp
    also have "\<dots> \<le> run_max (if int (length a) > mx then int (length a) else mx) runs"
      by (rule run_max_ge)
    finally show ?thesis using True by (simp add: run_max_def)
  next
    case False
    with Cons.prems have "r \<in> set runs" by simp
    from Cons.IH[OF this] show ?thesis by (simp add: run_max_def)
  qed
qed

lemma run_min_bound: "r \<in> set runs \<Longrightarrow> run_min mn runs \<le> int (length r)"
proof (induction runs arbitrary: mn)
  case Nil then show ?case by simp
next
  case (Cons a runs)
  show ?case
  proof (cases "r = a")
    case True
    have "run_min (if int (length a) < mn then int (length a) else mn) runs
            \<le> (if int (length a) < mn then int (length a) else mn)"
      by (rule run_min_le)
    also have "\<dots> \<le> int (length a)" by simp
    finally show ?thesis using True by (simp add: run_min_def)
  next
    case False
    with Cons.prems have "r \<in> set runs" by simp
    from Cons.IH[OF this] show ?thesis by (simp add: run_min_def)
  qed
qed

lemma run_max_uniform:
  "\<forall>r\<in>set runs. length r = L \<Longrightarrow> runs \<noteq> [] \<Longrightarrow> mx \<le> int L \<Longrightarrow> run_max mx runs = int L"
proof (induction runs arbitrary: mx)
  case Nil then show ?case by simp
next
  case (Cons a runs)
  show ?case
  proof (cases "runs = []")
    case True
    with Cons.prems show ?thesis by (auto simp: run_max_def)
  next
    case False
    have "run_max (if int (length a) > mx then int (length a) else mx) runs = int L"
      using Cons.prems False by (intro Cons.IH) auto
    then show ?thesis by (simp add: run_max_def)
  qed
qed

lemma run_min_uniform:
  "\<forall>r\<in>set runs. length r = L \<Longrightarrow> runs \<noteq> [] \<Longrightarrow> int L \<le> mn \<Longrightarrow> run_min mn runs = int L"
proof (induction runs arbitrary: mn)
  case Nil then show ?case by simp
next
  case (Cons a runs)
  show ?case
  proof (cases "runs = []")
    case True
    with Cons.prems show ?thesis by (auto simp: run_min_def)
  next
    case False
    have "run_min (if int (length a) < mn then int (length a) else mn) runs = int L"
      using Cons.prems False by (intro Cons.IH) auto
    then show ?thesis by (simp add: run_min_def)
  qed
qed

lemma rle_uniform_length:
  "\<forall>r\<in>set runs. length r = L \<Longrightarrow> length (rle_runs runs) = length runs * (L + 1)"
  by (induction runs) (simp_all add: rle_runs_Nil rle_runs_Cons)

lemma rle_uniform_drop:
  "\<forall>r\<in>set runs. length r = L \<Longrightarrow> e \<le> length runs \<Longrightarrow>
   drop (e * (L + 1)) (rle_runs runs) = rle_runs (drop e runs)"
proof (induction runs arbitrary: e)
  case Nil then show ?case by (simp add: rle_runs_Nil)
next
  case (Cons a runs)
  show ?case
  proof (cases e)
    case 0 then show ?thesis by simp
  next
    case (Suc k)
    with Cons.prems have "drop (k * (L + 1)) (rle_runs runs) = rle_runs (drop k runs)"
      by (intro Cons.IH) auto
    moreover have "length a = L" using Cons.prems by simp
    ultimately show ?thesis using Suc by (simp add: rle_runs_Cons)
  qed
qed

lemma rle_uniform_run:
  assumes "\<forall>r\<in>set runs. length r = L" "e < length runs"
  shows "e * (L + 1) + 1 + L \<le> length (rle_runs runs) \<and>
         take L (drop (e * (L + 1) + 1) (rle_runs runs)) = runs ! e"
proof -
  have d: "drop (e * (L + 1)) (rle_runs runs) = rle_runs (drop e runs)"
    using assms by (intro rle_uniform_drop) auto
  have "drop e runs = runs ! e # drop (Suc e) runs"
    using assms(2) by (simp add: Cons_nth_drop_Suc)
  then have "rle_runs (drop e runs) = int (length (runs ! e)) # runs ! e @ rle_runs (drop (Suc e) runs)"
    by (simp add: rle_runs_Cons)
  moreover have le: "length (runs ! e) = L" using assms by simp
  ultimately have "drop (e * (L + 1)) (rle_runs runs) = int L # runs ! e @ rle_runs (drop (Suc e) runs)"
    using d by simp
  then have "drop 1 (drop (e * (L + 1)) (rle_runs runs)) = runs ! e @ rle_runs (drop (Suc e) runs)"
    by simp
  then have "drop (e * (L + 1) + 1) (rle_runs runs) = runs ! e @ rle_runs (drop (Suc e) runs)"
    by (simp add: add.commute)
  then have t: "take L (drop (e * (L + 1) + 1) (rle_runs runs)) = runs ! e"
    using le by simp
  have "Suc e * (L + 1) \<le> length runs * (L + 1)" using assms(2) by (intro mult_le_mono1) simp
  then have "e * (L + 1) + 1 + L \<le> length (rle_runs runs)"
    using rle_uniform_length[OF assms(1)] by simp
  with t show ?thesis by simp
qed

lemma copy_runs_uniform:
  assumes "\<forall>r\<in>set runs. length r = L" "\<forall>e\<in>set es. e < length runs"
  shows "copy_runs (rle_runs runs) L es = Inr (concat (map (\<lambda>e. runs ! e) es))"
  using assms(2)
proof (induction es)
  case Nil then show ?case by simp
next
  case (Cons e es)
  then have "e < length runs" by simp
  from rle_uniform_run[OF assms(1) this] Cons show ?case
    by (simp add: ebind_def Let_def)
qed

lemma copy_runs_all:
  assumes "\<forall>r\<in>set runs. length r = L"
  shows "copy_runs (rle_runs runs) L [0..<length runs] = Inr (concat runs)"
proof -
  have "copy_runs (rle_runs runs) L [0..<length runs] = Inr (concat (map (\<lambda>e. runs ! e) [0..<length runs]))"
    using assms by (intro copy_runs_uniform) auto
  then show ?thesis by (simp add: map_nth)
qed


lemma add_shape_empty:
  "elem_e elem = [] \<Longrightarrow>
   yo__add_shape shapes materials name matname groupname xform elem vert vhash =
     Inr (shapes, elem, vert, vhash)"
  by (simp add: yo__add_shape_def)

lemma add_shape_Inr:
  assumes "yo__add_shape shapes materials name matname groupname xform elem vert vhash = Inr r"
    and "elem_e elem \<noteq> []"
  shows "\<exists>et ne el.
           shape_elems elem = Inr (et, ne, el) \<and>
           (length (norm_d vert) = length (pos_d vert) \<or> norm_d vert = []) \<and>
           (length (texcoord_d vert) = length (pos_d vert) \<or> texcoord_d vert = []) \<and>
           (length (color_d vert) = length (pos_d vert) \<or> color_d vert = []) \<and>
           (length (radius_d vert) = length (pos_d vert) \<or> radius_d vert = []) \<and>
           r = (shapes @
                  [\<lparr> name_s = name, groupname_s = groupname, matname_s = matname,
                     matid_s = find_matid matname materials 0,
                     nelems_s = ne, elem_s = el, etype_s = et,
                     nverts_s = int (length (pos_d vert)),
                     pos_s = pos_d vert, norm_s = norm_d vert, texcoord_s = texcoord_d vert,
                     color_s = color_d vert, radius_s = radius_d vert,
                     xformed_s = (xform \<noteq> ym_identity_affine3f), xform_s = xform \<rparr>],
                \<lparr> etype_e = 0, elem_e = [] \<rparr>,
                \<lparr> pos_d = [], texcoord_d = [], norm_d = [], color_d = [], radius_d = [] \<rparr>,
                vhash_clear vhash)"
  using assms
  by (auto simp add: yo__add_shape_def ebind_def assert_def Let_def
           split: if_splits sum.splits prod.splits)

lemma shape_elems_rle:
  assumes "etype_e elem = yo_etype_polygon \<or> etype_e elem = yo_etype_polyline"
    and "elem_e elem = rle_runs runs"
  shows "shape_elems elem =
           (if run_min 1000000 runs > 0 then
              (if run_min 1000000 runs = run_max (-1) runs \<and> run_max (-1) runs < 4
               then ebind (copy_runs (rle_runs runs) (nat (run_max (-1) runs)) [0..<length runs])
                      (\<lambda>r. Inr (run_max (-1) runs, int (length runs), r))
               else Inr (etype_e elem, int (length runs), rle_runs runs))
            else Inl AssertFailed)"
proof -
  have sc: "scan_runs (rle_runs runs) 0 (-1) 1000000 0 =
              Some (Inr (run_max (-1) runs, run_min 1000000 runs, int (length runs)))"
    using scan_runs_rle[of "[]" runs "-1" 1000000 0] by simp
  from assms(1) have ne: "etype_e elem \<noteq> yo_etype_point" "etype_e elem \<noteq> yo_etype_line"
    "etype_e elem \<noteq> yo_etype_triangle"
    by (auto simp: yo_etype_polygon_def yo_etype_polyline_def yo_etype_point_def
          yo_etype_line_def yo_etype_triangle_def)
  show ?thesis
    unfolding shape_elems_def using assms(1) ne
    by (simp add: sc assert_def ebind_def assms(2))
qed


text \<open>
  C5. A flush of a polygon or polyline buffer that emits a shape: the shape counts one
  element per run; where all runs have one length \<open>L\<close> of at most 3 the shape has the
  fixed type \<open>L\<close> and the runs without their counts; where the runs do not have one
  length of at most 3, the type and the buffer are those of the pending elements.
\<close>

theorem add_shape_compaction:
  assumes et: "etype_e elem = yo_etype_polygon \<or> etype_e elem = yo_etype_polyline"
    and buf: "elem_e elem = rle_runs runs"
    and ne: "runs \<noteq> []"
    and ok: "yo__add_shape shapes materials name matname groupname xform elem vert vhash =
               Inr (shapes', elem', vert', vhash')"
  shows "\<exists>s. shapes' = shapes @ [s] \<and> nelems_s s = int (length runs) \<and>
           ((\<forall>r\<in>set runs. length r = L) \<and> L \<le> 3 \<longrightarrow>
              etype_s s = int L \<and> elem_s s = concat runs) \<and>
           (\<not> (\<exists>K\<le>3. \<forall>r\<in>set runs. length r = K) \<longrightarrow>
              etype_s s = etype_e elem \<and> elem_s s = elem_e elem)"
proof -
  from ne buf have nonempty: "elem_e elem \<noteq> []"
    by (cases runs) (simp_all add: rle_runs_Cons)
  from add_shape_Inr[OF ok nonempty] obtain et' ne' el' s where
    se: "shape_elems elem = Inr (et', ne', el')" and
    sh: "shapes' = shapes @ [s]" and
    fs: "nelems_s s = ne'" "elem_s s = el'" "etype_s s = et'"
    by fastforce
  let ?mx = "run_max (-1) runs" and ?mn = "run_min 1000000 runs"
  note eq = se[unfolded shape_elems_rle[OF et buf]]
  from eq have pos: "?mn > 0" by (auto split: if_splits)
  have n: "ne' = int (length runs)"
    using eq by (auto simp: ebind_def split: if_splits sum.splits)
  have uni: "et' = int L \<and> el' = concat runs" if u: "\<forall>r\<in>set runs. length r = L" and l3: "L \<le> 3"
  proof -
    have mx: "?mx = int L" using u ne by (intro run_max_uniform) auto
    have mn: "?mn = int L" using u ne l3 by (intro run_min_uniform) auto
    have cp: "copy_runs (rle_runs runs) L [0..<length runs] = Inr (concat runs)"
      by (rule copy_runs_all[OF u])
    from eq show ?thesis using mx mn l3 cp by (simp add: ebind_def split: if_splits)
  qed
  have mixed: "et' = etype_e elem \<and> el' = elem_e elem"
    if m: "\<not> (\<exists>K\<le>3. \<forall>r\<in>set runs. length r = K)"
  proof -
    have "\<not> (?mn = ?mx \<and> ?mx < 4)"
    proof
      assume a: "?mn = ?mx \<and> ?mx < 4"
      have "\<forall>r\<in>set runs. length r = nat ?mx"
      proof
        fix r assume "r \<in> set runs"
        from run_min_bound[OF this, of 1000000] run_max_bound[OF this, of "-1"] a
        show "length r = nat ?mx" by simp
      qed
      moreover from a have "nat ?mx \<le> 3" by arith
      ultimately show False using m by blast
    qed
    with eq pos show ?thesis by (auto simp: buf split: if_splits)
  qed
  from sh fs n uni mixed show ?thesis by auto
qed

text \<open>Two triangles as polygons become triangles; a triangle and a quad stay polygons.\<close>

theorem add_shape_compaction_witness:
  "(\<exists>sh e vd h s.
      yo__add_shape [] [] [] [] [] ym_identity_affine3f
        \<lparr> etype_e = yo_etype_polygon, elem_e = rle_runs [[0, 1, 2], [2, 1, 3]] \<rparr>
        example_vert4 example_vhash = Inr (sh, e, vd, h) \<and>
      sh = [s] \<and> nelems_s s = 2 \<and> etype_s s = 3 \<and> elem_s s = [0, 1, 2, 2, 1, 3]) \<and>
   (\<exists>sh e vd h s.
      yo__add_shape [] [] [] [] [] ym_identity_affine3f
        \<lparr> etype_e = yo_etype_polygon, elem_e = rle_runs [[0, 1, 2], [0, 1, 2, 3]] \<rparr>
        example_vert4 example_vhash = Inr (sh, e, vd, h) \<and>
      sh = [s] \<and> nelems_s s = 2 \<and> etype_s s = yo_etype_polygon \<and>
      elem_s s = [3, 0, 1, 2, 4, 0, 1, 2, 3])"
proof -
  let ?e1 = "\<lparr> etype_e = yo_etype_polygon, elem_e = rle_runs [[0, 1, 2], [2, 1, 3]] \<rparr>"
  let ?e2 = "\<lparr> etype_e = yo_etype_polygon, elem_e = rle_runs [[0, 1, 2], [0, 1, 2, 3]] \<rparr>"
  have s1: "shape_elems ?e1 = Inr (3, 2, [0, 1, 2, 2, 1, 3])" by code_simp
  have s2: "shape_elems ?e2 = Inr (13, 2, [3, 0, 1, 2, 4, 0, 1, 2, 3])" by code_simp
  have n1: "elem_e ?e1 \<noteq> []" and n2: "elem_e ?e2 \<noteq> []" by (simp_all add: rle_runs_def)
  have r1: "\<exists>sh e vd h. yo__add_shape [] [] [] [] [] (ym_identity_affine3f :: int list) ?e1
              example_vert4 example_vhash = Inr (sh, e, vd, h)"
    using n1 by (simp add: yo__add_shape_def s1 assert_def ebind_def example_vert4_def)
  have r2: "\<exists>sh e vd h. yo__add_shape [] [] [] [] [] (ym_identity_affine3f :: int list) ?e2
              example_vert4 example_vhash = Inr (sh, e, vd, h)"
    using n2 by (simp add: yo__add_shape_def s2 assert_def ebind_def example_vert4_def)
  from r1 obtain sh1 el1 vd1 h1 where
    ok1: "yo__add_shape [] [] [] [] [] (ym_identity_affine3f :: int list) ?e1
            example_vert4 example_vhash = Inr (sh1, el1, vd1, h1)" by blast
  from r2 obtain sh2 el2 vd2 h2 where
    ok2: "yo__add_shape [] [] [] [] [] (ym_identity_affine3f :: int list) ?e2
            example_vert4 example_vhash = Inr (sh2, el2, vd2, h2)" by blast
  have c1: "\<exists>s. sh1 = [s] \<and> nelems_s s = 2 \<and> etype_s s = 3 \<and> elem_s s = [0, 1, 2, 2, 1, 3]"
    using add_shape_compaction[OF _ _ _ ok1, of "[[0, 1, 2], [2, 1, 3]]" 3] by simp
  have mixed: "\<not> (\<exists>K\<le>3. \<forall>r\<in>set [[0, 1, 2], [0, 1, 2, 3 :: int]]. length r = K)" by auto
  have c2: "\<exists>s. sh2 = [s] \<and> nelems_s s = 2 \<and> etype_s s = yo_etype_polygon \<and>
              elem_s s = [3, 0, 1, 2, 4, 0, 1, 2, 3]"
    using add_shape_compaction[OF _ _ _ ok2, of "[[0, 1, 2], [0, 1, 2, 3]]" 0] mixed
    by (simp add: rle_runs_def)
  from ok1 c1 ok2 c2 show ?thesis by blast
qed

section \<open>The loop body, keyword by keyword\<close>

text \<open>
  What \<^verbatim>\<open>yo_load_obj\<close> does with a line depends on its first token alone; the lemmas of
  this section read the chain of comparisons for each keyword.
\<close>

lemma step_empty:
  "yo__splitws line 1024 = [] \<Longrightarrow>
   yo_load_obj_line fs atof filename triangulate ext st line = Inr st"
  by (simp add: yo_load_obj_line_def)

lemma step_comment:
  "yo__splitws line 1024 = k # rest \<Longrightarrow> take 1 k = ''#'' \<Longrightarrow>
   yo_load_obj_line fs atof filename triangulate ext st line = Inr st"
  by (simp add: yo_load_obj_line_def)

lemma step_v:
  "yo__splitws line 1024 = ''v'' # rest \<Longrightarrow>
   yo_load_obj_line fs atof filename triangulate ext st line =
     ebind (yo__parse_float3 atof rest) (\<lambda>a.
       Inr (st\<lparr> obj_vert_l := (obj_vert_l st)\<lparr> pos_d := pos_d (obj_vert_l st) @ [a] \<rparr> \<rparr>))"
  by (simp add: yo_load_obj_line_def Let_def split del: if_split)

lemma step_vt:
  "yo__splitws line 1024 = ''vt'' # rest \<Longrightarrow>
   yo_load_obj_line fs atof filename triangulate ext st line =
     ebind (yo__parse_float2 atof rest) (\<lambda>a.
       Inr (st\<lparr> obj_vert_l :=
                  (obj_vert_l st)\<lparr> texcoord_d := texcoord_d (obj_vert_l st) @ [a] \<rparr> \<rparr>))"
  by (simp add: yo_load_obj_line_def Let_def split del: if_split)

lemma step_vn:
  "yo__splitws line 1024 = ''vn'' # rest \<Longrightarrow>
   yo_load_obj_line fs atof filename triangulate ext st line =
     ebind (yo__parse_float3 atof rest) (\<lambda>a.
       Inr (st\<lparr> obj_vert_l := (obj_vert_l st)\<lparr> norm_d := norm_d (obj_vert_l st) @ [a] \<rparr> \<rparr>))"
  by (simp add: yo_load_obj_line_def Let_def split del: if_split)

lemma step_vc:
  "yo__splitws line 1024 = ''vc'' # rest \<Longrightarrow>
   yo_load_obj_line fs atof filename triangulate ext st line =
     (if ext then
        ebind (yo__parse_float3 atof rest) (\<lambda>a.
          Inr (st\<lparr> obj_vert_l := (obj_vert_l st)\<lparr> norm_d := norm_d (obj_vert_l st) @ [a] \<rparr> \<rparr>))
      else Inr st)"
  by (cases ext) (simp_all add: yo_load_obj_line_def Let_def split del: if_split)

lemma step_vr:
  "yo__splitws line 1024 = ''vr'' # rest \<Longrightarrow>
   yo_load_obj_line fs atof filename triangulate ext st line =
     (if ext then
        ebind (yo__parse_float atof rest) (\<lambda>a.
          Inr (st\<lparr> obj_vert_l :=
                     (obj_vert_l st)\<lparr> radius_d := radius_d (obj_vert_l st) @ [a] \<rparr> \<rparr>))
      else Inr st)"
  by (cases ext) (simp_all add: yo_load_obj_line_def Let_def split del: if_split)

lemma step_xf:
  "yo__splitws line 1024 = ''xf'' # rest \<Longrightarrow>
   yo_load_obj_line fs atof filename triangulate ext st line =
     (if ext then ebind (yo__parse_affine3f atof rest) (\<lambda>a. Inr (st\<lparr> xform_l := a \<rparr>))
      else Inr st)"
  by (cases ext) (simp_all add: yo_load_obj_line_def Let_def split del: if_split)

lemma step_c:
  "yo__splitws line 1024 = ''c'' # rest \<Longrightarrow>
   yo_load_obj_line fs atof filename triangulate ext st line =
     (if ext then
        ebind (flush st) (\<lambda>st1.
        ebind (parse_from_to (''c'' # rest) (vhash_l st1) (obj_vert_l st)) (\<lambda>(from, to, vhash2).
        ebind (yo__add_camera (cameras_l st1) (name_l st1) from to (obj_vert_l st) vhash2)
          (\<lambda>(cameras', vhash3).
             Inr (st1\<lparr> cameras_l := cameras', vhash_l := vhash3, name_l := [],
                       matname_l := [], xform_l := ym_identity_affine3f \<rparr>))))
      else Inr st)"
  by (cases ext) (simp_all add: yo_load_obj_line_def Let_def split del: if_split)

lemma step_e:
  "yo__splitws line 1024 = ''e'' # rest \<Longrightarrow>
   yo_load_obj_line fs atof filename triangulate ext st line =
     (if ext then
        ebind (flush st) (\<lambda>st1.
        ebind (parse_from_to (''e'' # rest) (vhash_l st1) (obj_vert_l st)) (\<lambda>(from, to, vhash2).
        ebind (yo__add_env (envs_l st1) (name_l st1) (matname_l st1) from to (obj_vert_l st)
                 vhash2)
          (\<lambda>(envs', vhash3).
             Inr (st1\<lparr> envs_l := envs', vhash_l := vhash3, name_l := [],
                       matname_l := [], xform_l := ym_identity_affine3f \<rparr>))))
      else Inr st)"
  by (cases ext) (simp_all add: yo_load_obj_line_def Let_def split del: if_split)

lemma step_f:
  "yo__splitws line 1024 = ''f'' # rest \<Longrightarrow>
   yo_load_obj_line fs atof filename triangulate ext st line =
     (if triangulate
      then elem_record st yo_etype_triangle [] (verts_fan (obj_vert_l st) 1 0 rest)
      else elem_record st yo_etype_polygon [int (length rest)]
             (verts_plain (obj_vert_l st) rest))"
  by (cases triangulate) (simp_all add: yo_load_obj_line_def Let_def split del: if_split)

lemma step_l:
  "yo__splitws line 1024 = ''l'' # rest \<Longrightarrow>
   yo_load_obj_line fs atof filename triangulate ext st line =
     (if triangulate
      then elem_record st yo_etype_line [] (verts_strip (obj_vert_l st) 1 rest)
      else elem_record st yo_etype_polyline [int (length rest)]
             (verts_plain (obj_vert_l st) rest))"
  by (cases triangulate) (simp_all add: yo_load_obj_line_def Let_def split del: if_split)

lemma step_p:
  "yo__splitws line 1024 = ''p'' # rest \<Longrightarrow>
   yo_load_obj_line fs atof filename triangulate ext st line =
     elem_record st yo_etype_point [] (verts_plain (obj_vert_l st) rest)"
  by (simp add: yo_load_obj_line_def Let_def split del: if_split)

lemma step_o:
  "yo__splitws line 1024 = ''o'' # rest \<Longrightarrow>
   yo_load_obj_line fs atof filename triangulate ext st line =
     ebind (flush st) (\<lambda>st1.
     ebind (tok1_or_null (''o'' # rest)) (\<lambda>n.
       Inr (st1\<lparr> name_l := n, matname_l := [], groupname_l := [],
                 xform_l := ym_identity_affine3f \<rparr>)))"
  by (simp add: yo_load_obj_line_def Let_def split del: if_split)

lemma step_g:
  "yo__splitws line 1024 = ''g'' # rest \<Longrightarrow>
   yo_load_obj_line fs atof filename triangulate ext st line =
     ebind (flush st) (\<lambda>st1.
     ebind (tok1_or_null (''g'' # rest)) (\<lambda>n. Inr (st1\<lparr> groupname_l := n \<rparr>)))"
  by (simp add: yo_load_obj_line_def Let_def split del: if_split)

lemma step_usemtl:
  "yo__splitws line 1024 = ''usemtl'' # rest \<Longrightarrow>
   yo_load_obj_line fs atof filename triangulate ext st line =
     ebind (flush st) (\<lambda>st1.
     ebind (tok1_or_null (''usemtl'' # rest)) (\<lambda>n. Inr (st1\<lparr> matname_l := n \<rparr>)))"
  by (simp add: yo_load_obj_line_def Let_def split del: if_split)

lemma step_mtllib:
  "yo__splitws line 1024 = ''mtllib'' # rest \<Longrightarrow>
   yo_load_obj_line fs atof filename triangulate ext st line =
     ebind (tok_at (''mtllib'' # rest) 1) (\<lambda>t1.
     ebind (yo__load_mtl fs atof (materials_l st) (textures_l st)
              (yo__split_path_dirname filename @ t1)) (\<lambda>(materials', textures').
       Inr (st\<lparr> materials_l := materials', textures_l := textures' \<rparr>)))"
  by (simp add: yo_load_obj_line_def Let_def split del: if_split)

lemma step_other:
  assumes "yo__splitws line 1024 = k # rest" "take 1 k \<noteq> ''#''"
    "k \<noteq> ''v''"
    "k \<noteq> ''vt''"
    "k \<noteq> ''vn''"
    "k \<noteq> ''vc''"
    "k \<noteq> ''vr''"
    "k \<noteq> ''xf''"
    "k \<noteq> ''c''"
    "k \<noteq> ''e''"
    "k \<noteq> ''f''"
    "k \<noteq> ''l''"
    "k \<noteq> ''p''"
    "k \<noteq> ''o''"
    "k \<noteq> ''g''"
    "k \<noteq> ''usemtl''"
    "k \<noteq> ''mtllib''"
  shows "yo_load_obj_line fs atof filename triangulate ext st line = Inr st"
  using assms(2-) by (simp add: yo_load_obj_line_def Let_def assms(1) split del: if_split)

lemma keyword_cases:
  assumes "P0 \<Longrightarrow> R"
    and "P1 \<Longrightarrow> R"
    and "P2 \<Longrightarrow> R"
    and "P3 \<Longrightarrow> R"
    and "P4 \<Longrightarrow> R"
    and "P5 \<Longrightarrow> R"
    and "P6 \<Longrightarrow> R"
    and "P7 \<Longrightarrow> R"
    and "P8 \<Longrightarrow> R"
    and "P9 \<Longrightarrow> R"
    and "P10 \<Longrightarrow> R"
    and "P11 \<Longrightarrow> R"
    and "P12 \<Longrightarrow> R"
    and "P13 \<Longrightarrow> R"
    and "P14 \<Longrightarrow> R"
    and "P15 \<Longrightarrow> R"
    and "\<not> P0 \<Longrightarrow> \<not> P1 \<Longrightarrow> \<not> P2 \<Longrightarrow> \<not> P3 \<Longrightarrow> \<not> P4 \<Longrightarrow> \<not> P5 \<Longrightarrow> \<not> P6 \<Longrightarrow> \<not> P7 \<Longrightarrow> \<not> P8 \<Longrightarrow> \<not> P9 \<Longrightarrow> \<not> P10 \<Longrightarrow> \<not> P11 \<Longrightarrow> \<not> P12 \<Longrightarrow> \<not> P13 \<Longrightarrow> \<not> P14 \<Longrightarrow> \<not> P15 \<Longrightarrow> R"
  shows R
  using assms by blast

text \<open>The pools only grow, at their ends.\<close>

lemma pools_grow_refl: "pools_grow a a"
  unfolding pools_grow_def
  by (rule exI[of _ "[]"], rule exI[of _ "[]"], rule exI[of _ "[]"], rule exI[of _ "[]"],
      rule exI[of _ "[]"]) simp

lemma pools_grow_pos: "pools_grow a (a\<lparr>pos_d := pos_d a @ [x]\<rparr>)"
  unfolding pools_grow_def
  by (rule exI[of _ "[x]"], rule exI[of _ "[]"], rule exI[of _ "[]"], rule exI[of _ "[]"],
      rule exI[of _ "[]"]) simp

lemma pools_grow_texcoord: "pools_grow a (a\<lparr>texcoord_d := texcoord_d a @ [x]\<rparr>)"
  unfolding pools_grow_def
  by (rule exI[of _ "[]"], rule exI[of _ "[x]"], rule exI[of _ "[]"], rule exI[of _ "[]"],
      rule exI[of _ "[]"]) simp

lemma pools_grow_norm: "pools_grow a (a\<lparr>norm_d := norm_d a @ [x]\<rparr>)"
  unfolding pools_grow_def
  by (rule exI[of _ "[]"], rule exI[of _ "[]"], rule exI[of _ "[x]"], rule exI[of _ "[]"],
      rule exI[of _ "[]"]) simp

lemma pools_grow_radius: "pools_grow a (a\<lparr>radius_d := radius_d a @ [x]\<rparr>)"
  unfolding pools_grow_def
  by (rule exI[of _ "[]"], rule exI[of _ "[]"], rule exI[of _ "[]"], rule exI[of _ "[]"],
      rule exI[of _ "[x]"]) simp

text \<open>Every line that the loop body survives falls under one of seven cases.\<close>

lemma load_line_cases:
  assumes ok: "yo_load_obj_line fs atof filename triangulate ext st line = Inr st'"
  obtains
    (pools) ov' where "st' = st\<lparr>obj_vert_l := ov'\<rparr>" "pools_grow (obj_vert_l st) ov'"
  | (xform) a where "st' = st\<lparr>xform_l := a\<rparr>"
  | (camera) st1 "from" to vh2 cams vh3 tok where
      "flush st = Inr st1"
      "parse_from_to tok (vhash_l st1) (obj_vert_l st) = Inr (from, to, vh2)"
      "yo__add_camera (cameras_l st1) (name_l st1) from to (obj_vert_l st) vh2 = Inr (cams, vh3)"
      "st' = st1\<lparr> cameras_l := cams, vhash_l := vh3, name_l := [], matname_l := [],
                  xform_l := ym_identity_affine3f \<rparr>"
  | (env) st1 "from" to vh2 es vh3 tok where
      "flush st = Inr st1"
      "parse_from_to tok (vhash_l st1) (obj_vert_l st) = Inr (from, to, vh2)"
      "yo__add_env (envs_l st1) (name_l st1) (matname_l st1) from to (obj_vert_l st) vh2 =
         Inr (es, vh3)"
      "st' = st1\<lparr> envs_l := es, vhash_l := vh3, name_l := [], matname_l := [],
                  xform_l := ym_identity_affine3f \<rparr>"
  | (elems) toks where
      "elem_record st yo_etype_polygon [int (length toks)]
         (verts_plain (obj_vert_l st) toks) = Inr st' \<or>
       elem_record st yo_etype_polyline [int (length toks)]
         (verts_plain (obj_vert_l st) toks) = Inr st' \<or>
       elem_record st yo_etype_triangle [] (verts_fan (obj_vert_l st) 1 0 toks) = Inr st' \<or>
       elem_record st yo_etype_line [] (verts_strip (obj_vert_l st) 1 toks) = Inr st' \<or>
       elem_record st yo_etype_point [] (verts_plain (obj_vert_l st) toks) = Inr st'"
  | (names) st1 n where
      "flush st = Inr st1"
      "st' = st1\<lparr> name_l := n, matname_l := [], groupname_l := [],
                  xform_l := ym_identity_affine3f \<rparr> \<or>
       st' = st1\<lparr> groupname_l := n \<rparr> \<or> st' = st1\<lparr> matname_l := n \<rparr>"
  | (mtllib) ms ts p where
      "yo__load_mtl fs atof (materials_l st) (textures_l st) p = Inr (ms, ts)"
      "st' = st\<lparr> materials_l := ms, textures_l := ts \<rparr>"
proof (cases "yo__splitws line 1024")
  case Nil
  with ok have "st' = st\<lparr>obj_vert_l := obj_vert_l st\<rparr>" by (simp add: step_empty)
  then show ?thesis by (rule pools) (rule pools_grow_refl)
next
  case (Cons k rest)
  have same: "st' = st \<Longrightarrow> thesis"
  proof -
    assume "st' = st"
    then have "st' = st\<lparr>obj_vert_l := obj_vert_l st\<rparr>" by simp
    then show thesis by (rule pools) (rule pools_grow_refl)
  qed
  show ?thesis
  proof (rule keyword_cases[of "take 1 k = ''#''" _ "k = ''v''" "k = ''vt''" "k = ''vn''" "k = ''vc''" "k = ''vr''" "k = ''xf''" "k = ''c''" "k = ''e''" "k = ''f''" "k = ''l''" "k = ''p''" "k = ''o''" "k = ''g''" "k = ''usemtl''" "k = ''mtllib''"])
    assume hash: "take 1 k = ''#''"
    with ok Cons have "st' = st" by (simp add: step_comment)
    then show ?thesis by (rule same)
  next
    assume v: "k = ''v''"
    with ok Cons obtain a where
      "st' = st\<lparr> obj_vert_l := (obj_vert_l st)\<lparr> pos_d := pos_d (obj_vert_l st) @ [a] \<rparr> \<rparr>"
      by (auto simp: step_v ebind_def split: sum.splits)
    then show ?thesis by (rule pools) (rule pools_grow_pos)
  next
    assume vt: "k = ''vt''"
    with ok Cons obtain a where
      "st' = st\<lparr> obj_vert_l :=
                 (obj_vert_l st)\<lparr> texcoord_d := texcoord_d (obj_vert_l st) @ [a] \<rparr> \<rparr>"
      by (auto simp: step_vt ebind_def split: sum.splits)
    then show ?thesis by (rule pools) (rule pools_grow_texcoord)
  next
    assume vn: "k = ''vn''"
    with ok Cons obtain a where
      "st' = st\<lparr> obj_vert_l := (obj_vert_l st)\<lparr> norm_d := norm_d (obj_vert_l st) @ [a] \<rparr> \<rparr>"
      by (auto simp: step_vn ebind_def split: sum.splits)
    then show ?thesis by (rule pools) (rule pools_grow_norm)
  next
    assume vc: "k = ''vc''"
    show ?thesis
    proof (cases ext)
      case True
      with vc ok Cons obtain a where
        "st' = st\<lparr> obj_vert_l := (obj_vert_l st)\<lparr> norm_d := norm_d (obj_vert_l st) @ [a] \<rparr> \<rparr>"
        by (auto simp: step_vc ebind_def split: sum.splits)
      then show ?thesis by (rule pools) (rule pools_grow_norm)
    next
      case False
      with vc ok Cons have "st' = st" by (simp add: step_vc)
      then show ?thesis by (rule same)
    qed
  next
    assume vr: "k = ''vr''"
    show ?thesis
    proof (cases ext)
      case True
      with vr ok Cons obtain a where
        "st' = st\<lparr> obj_vert_l :=
                   (obj_vert_l st)\<lparr> radius_d := radius_d (obj_vert_l st) @ [a] \<rparr> \<rparr>"
        by (auto simp: step_vr ebind_def split: sum.splits)
      then show ?thesis by (rule pools) (rule pools_grow_radius)
    next
      case False
      with vr ok Cons have "st' = st" by (simp add: step_vr)
      then show ?thesis by (rule same)
    qed
  next
    assume xf: "k = ''xf''"
    show ?thesis
    proof (cases ext)
      case True
      with xf ok Cons obtain a where "st' = st\<lparr> xform_l := a \<rparr>"
        by (auto simp: step_xf ebind_def split: sum.splits)
      then show ?thesis by (rule xform)
    next
      case False
      with xf ok Cons have "st' = st" by (simp add: step_xf)
      then show ?thesis by (rule same)
    qed
  next
    assume c: "k = ''c''"
    show ?thesis
    proof (cases ext)
      case True
      with c ok Cons obtain st1 "from" to vh2 cams vh3 where
        "flush st = Inr st1"
        "parse_from_to (''c'' # rest) (vhash_l st1) (obj_vert_l st) = Inr (from, to, vh2)"
        "yo__add_camera (cameras_l st1) (name_l st1) from to (obj_vert_l st) vh2 =
           Inr (cams, vh3)"
        "st' = st1\<lparr> cameras_l := cams, vhash_l := vh3, name_l := [], matname_l := [],
                    xform_l := ym_identity_affine3f \<rparr>"
        by (auto simp: step_c ebind_def split: sum.splits prod.splits)
      then show ?thesis by (rule camera)
    next
      case False
      with c ok Cons have "st' = st" by (simp add: step_c)
      then show ?thesis by (rule same)
    qed
  next
    assume e: "k = ''e''"
    show ?thesis
    proof (cases ext)
      case True
      with e ok Cons obtain st1 "from" to vh2 es vh3 where
        "flush st = Inr st1"
        "parse_from_to (''e'' # rest) (vhash_l st1) (obj_vert_l st) = Inr (from, to, vh2)"
        "yo__add_env (envs_l st1) (name_l st1) (matname_l st1) from to (obj_vert_l st) vh2 =
           Inr (es, vh3)"
        "st' = st1\<lparr> envs_l := es, vhash_l := vh3, name_l := [], matname_l := [],
                    xform_l := ym_identity_affine3f \<rparr>"
        by (auto simp: step_e ebind_def split: sum.splits prod.splits)
      then show ?thesis by (rule env)
    next
      case False
      with e ok Cons have "st' = st" by (simp add: step_e)
      then show ?thesis by (rule same)
    qed
  next
    assume f: "k = ''f''"
    with ok Cons show ?thesis
      by (cases triangulate) (auto simp: step_f intro: elems[of rest])
  next
    assume l: "k = ''l''"
    with ok Cons show ?thesis
      by (cases triangulate) (auto simp: step_l intro: elems[of rest])
  next
    assume p: "k = ''p''"
    with ok Cons show ?thesis by (auto simp: step_p intro: elems[of rest])
  next
    assume o: "k = ''o''"
    with ok Cons obtain st1 n where "flush st = Inr st1"
      "st' = st1\<lparr> name_l := n, matname_l := [], groupname_l := [],
                  xform_l := ym_identity_affine3f \<rparr>"
      by (auto simp: step_o ebind_def split: sum.splits)
    then show ?thesis by (intro names[of st1 n]) simp_all
  next
    assume g: "k = ''g''"
    with ok Cons obtain st1 n where "flush st = Inr st1" "st' = st1\<lparr> groupname_l := n \<rparr>"
      by (auto simp: step_g ebind_def split: sum.splits)
    then show ?thesis by (intro names[of st1 n]) simp_all
  next
    assume usemtl: "k = ''usemtl''"
    with ok Cons obtain st1 n where "flush st = Inr st1" "st' = st1\<lparr> matname_l := n \<rparr>"
      by (auto simp: step_usemtl ebind_def split: sum.splits)
    then show ?thesis by (intro names[of st1 n]) simp_all
  next
    assume mtllib: "k = ''mtllib''"
    with ok Cons obtain ms ts p where
      "yo__load_mtl fs atof (materials_l st) (textures_l st) p = Inr (ms, ts)"
      "st' = st\<lparr> materials_l := ms, textures_l := ts \<rparr>"
      by (auto simp: step_mtllib ebind_def split: sum.splits prod.splits)
    then show ?thesis by (rule that(7))
  next
    assume "take 1 k \<noteq> ''#''" "k \<noteq> ''v''" "k \<noteq> ''vt''" "k \<noteq> ''vn''" "k \<noteq> ''vc''" "k \<noteq> ''vr''" "k \<noteq> ''xf''" "k \<noteq> ''c''" "k \<noteq> ''e''" "k \<noteq> ''f''" "k \<noteq> ''l''" "k \<noteq> ''p''" "k \<noteq> ''o''" "k \<noteq> ''g''" "k \<noteq> ''usemtl''" "k \<noteq> ''mtllib''"
    with ok Cons have "st' = st" by (simp add: step_other)
    then show ?thesis by (rule same)
  qed
qed

lemma flush_empty: "elem_e (elem_l st) = [] \<Longrightarrow> flush st = Inr st"
  by (simp add: flush_def add_shape_empty ebind_def)

lemma flush_Inr:
  assumes "flush st = Inr st1" and "elem_e (elem_l st) \<noteq> []"
  shows "\<exists>et ne el.
           shape_elems (elem_l st) = Inr (et, ne, el) \<and>
           (length (norm_d (vert_l st)) = length (pos_d (vert_l st)) \<or> norm_d (vert_l st) = []) \<and>
           (length (texcoord_d (vert_l st)) = length (pos_d (vert_l st)) \<or>
              texcoord_d (vert_l st) = []) \<and>
           (length (color_d (vert_l st)) = length (pos_d (vert_l st)) \<or> color_d (vert_l st) = []) \<and>
           (length (radius_d (vert_l st)) = length (pos_d (vert_l st)) \<or>
              radius_d (vert_l st) = []) \<and>
           st1 = st\<lparr> shapes_l := shapes_l st @ [flushed_shape st et ne el],
                     elem_l := \<lparr> etype_e = 0, elem_e = [] \<rparr>,
                     vert_l := \<lparr> pos_d = [], texcoord_d = [], norm_d = [], color_d = [],
                                  radius_d = [] \<rparr>,
                     vhash_l := vhash_clear (vhash_l st) \<rparr>"
proof -
  from assms(1) obtain r where
    r: "yo__add_shape (shapes_l st) (materials_l st) (name_l st) (matname_l st)
          (groupname_l st) (xform_l st) (elem_l st) (vert_l st) (vhash_l st) = Inr r"
    and st1: "st1 = st\<lparr> shapes_l := fst r, elem_l := fst (snd r), vert_l := fst (snd (snd r)),
                        vhash_l := snd (snd (snd r)) \<rparr>"
    by (auto simp: flush_def ebind_def split: sum.splits prod.splits)
  from add_shape_Inr[OF r assms(2)] st1 show ?thesis
    by (auto simp: flushed_shape_def)
qed

lemma elem_record_Inr:
  assumes "elem_record st et header loop = Inr st'"
  shows "\<exists>st1 vh vd el.
           (if etype_e (elem_l st) \<noteq> et then flush st = Inr st1 else st1 = st) \<and>
           loop (vhash_l st1, vert_l st1, elem_e (elem_l st1) @ header) = Inr (vh, vd, el) \<and>
           st' = st1\<lparr> vhash_l := vh, vert_l := vd, elem_l := \<lparr> etype_e = et, elem_e = el \<rparr> \<rparr>"
  using assms
  by (auto simp: elem_record_def ebind_def split: sum.splits prod.splits if_splits)


section \<open>Properties of a whole load\<close>

lemma flush_cases:
  assumes "flush st = Inr st1"
  obtains (noop) "elem_e (elem_l st) = []" "st1 = st"
  | (emit) et ne el where "elem_e (elem_l st) \<noteq> []"
      "shape_elems (elem_l st) = Inr (et, ne, el)"
      "length (norm_d (vert_l st)) = length (pos_d (vert_l st)) \<or> norm_d (vert_l st) = []"
      "length (texcoord_d (vert_l st)) = length (pos_d (vert_l st)) \<or> texcoord_d (vert_l st) = []"
      "length (color_d (vert_l st)) = length (pos_d (vert_l st)) \<or> color_d (vert_l st) = []"
      "length (radius_d (vert_l st)) = length (pos_d (vert_l st)) \<or> radius_d (vert_l st) = []"
      "st1 = st\<lparr> shapes_l := shapes_l st @ [flushed_shape st et ne el],
                  elem_l := \<lparr> etype_e = 0, elem_e = [] \<rparr>,
                  vert_l := \<lparr> pos_d = [], texcoord_d = [], norm_d = [], color_d = [],
                               radius_d = [] \<rparr>,
                  vhash_l := vhash_clear (vhash_l st) \<rparr>"
proof (cases "elem_e (elem_l st) = []")
  case True
  with assms have "st1 = st" by (simp add: flush_empty)
  with True show ?thesis by (rule noop)
next
  case False
  from flush_Inr[OF assms False] obtain et ne el where
    "shape_elems (elem_l st) = Inr (et, ne, el)"
    "length (norm_d (vert_l st)) = length (pos_d (vert_l st)) \<or> norm_d (vert_l st) = []"
    "length (texcoord_d (vert_l st)) = length (pos_d (vert_l st)) \<or> texcoord_d (vert_l st) = []"
    "length (color_d (vert_l st)) = length (pos_d (vert_l st)) \<or> color_d (vert_l st) = []"
    "length (radius_d (vert_l st)) = length (pos_d (vert_l st)) \<or> radius_d (vert_l st) = []"
    "st1 = st\<lparr> shapes_l := shapes_l st @ [flushed_shape st et ne el],
                elem_l := \<lparr> etype_e = 0, elem_e = [] \<rparr>,
                vert_l := \<lparr> pos_d = [], texcoord_d = [], norm_d = [], color_d = [],
                             radius_d = [] \<rparr>,
                vhash_l := vhash_clear (vhash_l st) \<rparr>"
    by blast
  with False show ?thesis by (rule emit)
qed

lemma flush_materials: "flush st = Inr st1 \<Longrightarrow> materials_l st1 = materials_l st"
  by (erule flush_cases) simp_all

lemma flush_pending_empty: "flush st = Inr st1 \<Longrightarrow> elem_e (elem_l st1) = []"
  by (erule flush_cases) simp_all

lemma elem_record_shapes:
  assumes "elem_record st et header loop = Inr st'"
  shows "\<exists>st1. (flush st = Inr st1 \<or> st1 = st) \<and> shapes_l st' = shapes_l st1 \<and>
               materials_l st' = materials_l st"
proof -
  from elem_record_Inr[OF assms] obtain st1 vh vd el where
    c: "if etype_e (elem_l st) \<noteq> et then flush st = Inr st1 else st1 = st"
    and s: "st' = st1\<lparr> vhash_l := vh, vert_l := vd, elem_l := \<lparr> etype_e = et, elem_e = el \<rparr> \<rparr>"
    by blast
  from c have f: "flush st = Inr st1 \<or> st1 = st" by (simp split: if_splits)
  then have "materials_l st1 = materials_l st" using flush_materials[of st st1] by auto
  with f s show ?thesis by (intro exI[of _ st1]) simp
qed

text \<open>The shapes and the materials after a line.\<close>

lemma line_shapes_materials:
  assumes "yo_load_obj_line fs atof filename triangulate ext st line = Inr st'"
  shows "(\<exists>st1. (flush st = Inr st1 \<or> st1 = st) \<and> shapes_l st' = shapes_l st1 \<and>
                 materials_l st' = materials_l st) \<or>
         (shapes_l st' = shapes_l st \<and>
          (\<exists>ms ts p. yo__load_mtl fs atof (materials_l st) (textures_l st) p = Inr (ms, ts) \<and>
                      materials_l st' = ms))"
  using assms
proof (cases rule: load_line_cases)
  case (pools ov')
  then show ?thesis by (intro disjI1 exI[of _ st]) simp
next
  case (xform a)
  then show ?thesis by (intro disjI1 exI[of _ st]) simp
next
  case (camera st1 "from" to vh2 cams vh3 tok)
  then show ?thesis using flush_materials[of st st1] by (intro disjI1 exI[of _ st1]) simp
next
  case (env st1 "from" to vh2 es vh3 tok)
  then show ?thesis using flush_materials[of st st1] by (intro disjI1 exI[of _ st1]) simp
next
  case (elems toks)
  then have "\<exists>st1. (flush st = Inr st1 \<or> st1 = st) \<and> shapes_l st' = shapes_l st1 \<and>
               materials_l st' = materials_l st"
    by (elim disjE) (erule elem_record_shapes)+
  then show ?thesis by (rule disjI1)
next
  case (names st1 n)
  from names(2) have "shapes_l st' = shapes_l st1 \<and> materials_l st' = materials_l st1"
    by (elim disjE) simp_all
  with names(1) show ?thesis using flush_materials[of st st1]
    by (intro disjI1 exI[of _ st1]) simp
next
  case (mtllib ms ts p)
  then show ?thesis by (intro disjI2 conjI exI[of _ ms] exI[of _ ts] exI[of _ p]) simp_all
qed

lemma load_lines_induct:
  assumes "load_lines fs atof filename triangulate ext st ls = Inr st'"
    and "I st"
    and "\<And>a l b. I a \<Longrightarrow> yo_load_obj_line fs atof filename triangulate ext a l = Inr b \<Longrightarrow> I b"
  shows "I st'"
  using assms(1,2)
proof (induction ls arbitrary: st)
  case Nil
  then show ?case by simp
next
  case (Cons l ls)
  from Cons.prems(1) obtain b where
    b: "yo_load_obj_line fs atof filename triangulate ext st l = Inr b"
    and r: "load_lines fs atof filename triangulate ext b ls = Inr st'"
    by (auto simp: ebind_def split: sum.splits)
  from assms(3)[OF Cons.prems(2) b] have "I b" .
  from Cons.IH[OF r this] show ?case .
qed

lemma load_obj_Inr:
  assumes "yo_load_obj fs atof filename triangulate ext = Inr sc"
  obtains content st st' where "fs filename = Some content"
    "load_lines fs atof filename triangulate ext init_state (fgets_lines [] content) = Inr st"
    "flush st = Inr st'"
    "sc = \<lparr> shapes_sc = shapes_l st', materials_sc = materials_l st',
            textures_sc = textures_l st', cameras_sc = cameras_l st', envs_sc = envs_l st' \<rparr>"
  using assms
  by (auto simp: yo_load_obj_def ebind_def split: option.splits sum.splits)

lemma flush_regular:
  assumes "flush st = Inr st1" "\<forall>s\<in>set (shapes_l st). regular s"
  shows "\<forall>s\<in>set (shapes_l st1). regular s"
  using assms(1)
proof (cases rule: flush_cases)
  case noop
  with assms(2) show ?thesis by simp
next
  case (emit et ne el)
  then have "regular (flushed_shape st et ne el)"
    by (auto simp: regular_def flushed_shape_def)
  with emit assms(2) show ?thesis by auto
qed

text \<open>
  C3. In every shape of a scene that \<^verbatim>\<open>yo_load_obj\<close> returns, each of the five per-vertex
  arrays is empty or exactly \<open>nverts\<close> long, whatever the file: \<^verbatim>\<open>yo__add_shape\<close> asserts
  it of the pending arrays before it copies them, so a shape whose vertices named
  different attributes is never emitted.
\<close>

theorem shape_invariant:
  assumes "yo_load_obj fs atof filename triangulate ext = Inr sc" and "s \<in> set (shapes_sc sc)"
  shows "(pos_s s = [] \<or> int (length (pos_s s)) = nverts_s s) \<and>
         (norm_s s = [] \<or> int (length (norm_s s)) = nverts_s s) \<and>
         (texcoord_s s = [] \<or> int (length (texcoord_s s)) = nverts_s s) \<and>
         (color_s s = [] \<or> int (length (color_s s)) = nverts_s s) \<and>
         (radius_s s = [] \<or> int (length (radius_s s)) = nverts_s s)"
proof -
  from assms(1) obtain content st st' where
    ll: "load_lines fs atof filename triangulate ext init_state (fgets_lines [] content) = Inr st"
    and fl: "flush st = Inr st'"
    and sc: "sc = \<lparr> shapes_sc = shapes_l st', materials_sc = materials_l st',
            textures_sc = textures_l st', cameras_sc = cameras_l st', envs_sc = envs_l st' \<rparr>"
    by (rule load_obj_Inr)
  have "\<forall>s\<in>set (shapes_l st). regular s"
  proof (rule load_lines_induct[OF ll])
    show "\<forall>s\<in>set (shapes_l (init_state :: 'a load_state)). regular s"
      by (simp add: init_state_def)
  next
    fix a :: "'a load_state" and l b
    assume I: "\<forall>s\<in>set (shapes_l a). regular s"
      and step: "yo_load_obj_line fs atof filename triangulate ext a l = Inr b"
    from line_shapes_materials[OF step] flush_regular[OF _ I] I
    show "\<forall>s\<in>set (shapes_l b). regular s" by auto
  qed
  from flush_regular[OF fl this] assms(2) sc have "regular s" by simp
  then show ?thesis by (simp add: regular_def)
qed

text \<open>
  The quad loads into one regular shape; the file whose two points disagree on texture
  coordinates stops at the assertion.
\<close>

theorem shape_invariant_witness:
  "(\<exists>sc s. yo_load_obj example_fs_quad atoi ''a.obj'' True False = Inr sc \<and>
           shapes_sc sc = [s] \<and> nverts_s s = 4 \<and> length (pos_s s) = 4 \<and> norm_s s = [] \<and>
           texcoord_s s = [] \<and> color_s s = [] \<and> radius_s s = []) \<and>
   yo_load_obj example_fs_irregular atoi ''a.obj'' True False =
     (Inl AssertFailed :: error + int yo_scene)"
proof -
  let ?s = "\<lparr> name_s = [], groupname_s = [], matname_s = [], matid_s = - 1,
              nelems_s = 2, elem_s = [0, 1, 2, 0, 2, 3], etype_s = 3, nverts_s = 4,
              pos_s = [(0, 0, 0), (1, 0, 0), (1, 1, 0), (0, 1, 0 :: int)],
              norm_s = [], texcoord_s = [], color_s = [], radius_s = [], xformed_s = False,
              xform_s = [1, 0, 0, 0, 1, 0, 0, 0, 1, 0, 0, 0] \<rparr>"
  have ld: "yo_load_obj example_fs_quad atoi ''a.obj'' True False =
              Inr \<lparr> shapes_sc = [?s], materials_sc = [], textures_sc = [], cameras_sc = [],
                    envs_sc = [] \<rparr>"
    by code_simp
  have bad: "yo_load_obj example_fs_irregular atoi ''a.obj'' True False =
               (Inl AssertFailed :: error + int yo_scene)"
    by code_simp
  from shape_invariant[OF ld, of ?s] have "int (length (pos_s ?s)) = nverts_s ?s" by simp
  with ld bad show ?thesis by simp
qed

section \<open>Materials\<close>

lemma mtl_set_keeps:
  assumes "mtl_keeps ms0 st" "mtl_set st val upd = Inr st'"
  shows "mtl_keeps ms0 st'"
proof -
  obtain materials textures mat where st: "st = (materials, textures, mat)" by (cases st)
  from assms(2) st obtain a i where
    "mat = Some i" "st' = (materials[i := upd a (materials ! i)], textures, mat)"
    by (auto simp: mtl_set_def ebind_def split: sum.splits option.splits)
  with assms(1) st show ?thesis by (simp add: mtl_keeps_def)
qed

lemma mtl_map_keeps:
  assumes "mtl_keeps ms0 st" "mtl_map st mtok upd = Inr st'"
  shows "mtl_keeps ms0 st'"
proof -
  obtain materials textures mat where st: "st = (materials, textures, mat)" by (cases st)
  from assms(2) st obtain p t i textures' where
    "mat = Some i" "st' = (materials[i := upd p t (materials ! i)], textures', mat)"
    by (auto simp: mtl_map_def ebind_def split: sum.splits option.splits prod.splits)
  with assms(1) st show ?thesis by (simp add: mtl_keeps_def)
qed

lemma mtl_newmtl_keeps:
  assumes "mtl_keeps ms0 st"
    "(case st of (materials, textures, mat) \<Rightarrow>
              ebind (tok_at mtok (Suc 0)) (\<lambda>name.
                Inr (yo__add_empty_material materials name, textures, Some (length materials)))) = Inr st'"
  shows "mtl_keeps ms0 st'"
proof -
  obtain materials textures mat where st: "st = (materials, textures, mat)" by (cases st)
  from assms(2) st obtain name where
    "st' = (materials @ [yo__empty_material name], textures, Some (length materials))"
    by (auto simp: ebind_def yo__add_empty_material_def split: sum.splits)
  moreover from assms(1) st have "length ms0 \<le> length materials"
  proof -
    from assms(1) st have "take (length ms0) materials = ms0" by (simp add: mtl_keeps_def)
    then have "length (take (length ms0) materials) = length ms0" by simp
    then show ?thesis by simp
  qed
  ultimately show ?thesis using assms(1) st by (simp add: mtl_keeps_def)
qed

lemma mtl_line_keeps:
  assumes "mtl_keeps ms0 st" "yo__load_mtl_line atof st l = Inr st'"
  shows "mtl_keeps ms0 st'"
  using assms(2) assms(1) unfolding yo__load_mtl_line_def Let_def
  by (simp split: if_splits)
     (erule (1) mtl_set_keeps[rotated] mtl_map_keeps[rotated] mtl_newmtl_keeps[rotated] | simp)+

lemma mtl_lines_keeps:
  "mtl_keeps ms0 st \<Longrightarrow> mtl_lines atof st ls = Inr st' \<Longrightarrow> mtl_keeps ms0 st'"
proof (induction ls arbitrary: st)
  case Nil
  then show ?case by simp
next
  case (Cons l ls)
  from Cons.prems(2) obtain b where b: "yo__load_mtl_line atof st l = Inr b"
    and r: "mtl_lines atof b ls = Inr st'"
    by (auto simp: ebind_def split: sum.splits)
  from Cons.IH[OF mtl_line_keeps[OF Cons.prems(1) b] r] show ?case .
qed

lemma load_mtl_extends:
  assumes "yo__load_mtl fs atof ms ts p = Inr (ms', ts')"
  shows "\<exists>rest. ms' = ms @ rest"
proof -
  from assms obtain content mat where
    "mtl_lines atof (ms, ts, None) (fgets_lines [] content) = Inr (ms', ts', mat)"
    by (auto simp: yo__load_mtl_def ebind_def split: option.splits sum.splits prod.splits)
  moreover have "mtl_keeps ms (ms, ts, None)" by (simp add: mtl_keeps_def)
  ultimately have "mtl_keeps ms (ms', ts', mat)" by (rule mtl_lines_keeps[rotated])
  then have "take (length ms) ms' = ms" by (simp add: mtl_keeps_def)
  then have "ms' = ms @ drop (length ms) ms'" by (metis append_take_drop_id)
  then show ?thesis ..
qed

lemma tolower_zero: "tolower c = 0 \<longleftrightarrow> c = CHR 0x00"
proof
  assume "tolower c = 0"
  then have "(of_char c :: nat) = 0" by (simp add: tolower_def Let_def split: if_splits)
  then have "of_char c = (of_char (CHR 0x00) :: nat)" by simp
  then show "c = CHR 0x00" by (simp only: of_char_eq_iff)
next
  assume "c = CHR 0x00"
  then show "tolower c = 0" by (simp add: tolower_def)
qed

lemma stricmp_loop_zero:
  assumes "CHR 0x00 \<notin> set a" "CHR 0x00 \<notin> set b"
  shows "stricmp_loop a b = 0 \<longleftrightarrow> map tolower a = map tolower b"
  using assms
proof (induction a b rule: stricmp_loop.induct)
  case 1
  then show ?case by simp
next
  case (2 b bs)
  then show ?case by (auto simp add: tolower_zero)
next
  case (3 a as)
  then show ?case by (auto simp add: tolower_zero)
next
  case (4 a as b bs)
  then show ?case by simp
qed

lemma c_str_no_nul: "CHR 0x00 \<notin> set (c_str s)"
  unfolding c_str_def by (induction s) auto

lemma stricmp_zero: "yo__stricmp a b = 0 \<longleftrightarrow> ci_equal a b"
  unfolding yo__stricmp_def ci_equal_def
  by (rule stricmp_loop_zero) (rule c_str_no_nul)+

lemma find_matid_first:
  "(find_matid n ms i = -1 \<and> (\<forall>m\<in>set ms. \<not> ci_equal n (name_m m))) \<or>
   (i \<le> find_matid n ms i \<and> nat (find_matid n ms i - i) < length ms \<and>
    ci_equal n (name_m (ms ! nat (find_matid n ms i - i))) \<and>
    (\<forall>j<nat (find_matid n ms i - i). \<not> ci_equal n (name_m (ms ! j))))"
proof (induction ms arbitrary: i)
  case Nil
  then show ?case by simp
next
  case (Cons m ms)
  show ?case
  proof (cases "ci_equal n (name_m m)")
    case True
    then show ?thesis by (simp add: stricmp_zero)
  next
    case False
    then have eq: "find_matid n (m # ms) i = find_matid n ms (i + 1)"
      by (simp add: stricmp_zero)
    from Cons.IH[of "i + 1"] show ?thesis
    proof
      assume "find_matid n ms (i + 1) = - 1 \<and> (\<forall>m\<in>set ms. \<not> ci_equal n (name_m m))"
      with False eq show ?thesis by simp
    next
      let ?k = "find_matid n ms (i + 1)"
      assume a: "i + 1 \<le> ?k \<and> nat (?k - (i + 1)) < length ms \<and>
        ci_equal n (name_m (ms ! nat (?k - (i + 1)))) \<and>
        (\<forall>j<nat (?k - (i + 1)). \<not> ci_equal n (name_m (ms ! j)))"
      then have "i + 1 \<le> ?k" by simp
      then have s: "nat (?k - i) = Suc (nat (?k - (i + 1)))" by arith
      have "\<forall>j<nat (?k - i). \<not> ci_equal n (name_m ((m # ms) ! j))"
      proof (intro allI impI)
        fix j assume "j < nat (?k - i)"
        with a s False show "\<not> ci_equal n (name_m ((m # ms) ! j))"
          by (cases j) simp_all
      qed
      with a s eq show ?thesis by simp
    qed
  qed
qed

lemma find_matid_match: "first_ci_match (find_matid n ms 0) n ms"
  using find_matid_first[of n ms 0] by (simp add: first_ci_match_def)

lemma first_ci_match_append:
  assumes "first_ci_match i n ms" "0 \<le> i"
  shows "first_ci_match i n (ms @ rest)"
  using assms by (auto simp: first_ci_match_def nth_append)

lemma first_ci_match_range: "first_ci_match i n ms \<Longrightarrow> -1 \<le> i"
  by (auto simp: first_ci_match_def)

lemma flush_resolved:
  assumes "flush st = Inr st1" "resolved st"
  shows "resolved st1"
  using assms(1)
proof (cases rule: flush_cases)
  case noop
  with assms(2) show ?thesis by simp
next
  case (emit et ne el)
  have "first_ci_match (matid_s (flushed_shape st et ne el))
          (matname_s (flushed_shape st et ne el)) (materials_l st)"
    by (simp add: flushed_shape_def find_matid_match)
  then have "\<exists>ms rest. materials_l st = ms @ rest \<and>
        first_ci_match (matid_s (flushed_shape st et ne el))
          (matname_s (flushed_shape st et ne el)) ms"
    by (intro exI[of _ "materials_l st"] exI[of _ "[]"]) simp
  with emit(7) assms(2) show ?thesis by (auto simp: resolved_def)
qed

lemma resolved_extend:
  assumes "resolved st" "shapes_l st' = shapes_l st" "materials_l st' = materials_l st @ extra"
  shows "resolved st'"
  unfolding resolved_def
proof
  fix s assume "s \<in> set (shapes_l st')"
  with assms(1,2) obtain ms rest where "materials_l st = ms @ rest"
    "first_ci_match (matid_s s) (matname_s s) ms"
    by (auto simp: resolved_def)
  with assms(3) show "\<exists>ms rest. materials_l st' = ms @ rest \<and>
        first_ci_match (matid_s s) (matname_s s) ms"
    by (intro exI[of _ ms] exI[of _ "rest @ extra"]) simp
qed

lemma line_resolved:
  assumes step: "yo_load_obj_line fs atof filename triangulate ext st line = Inr st'"
    and r: "resolved st"
  shows "resolved st'"
  using line_shapes_materials[OF step]
proof
  assume "\<exists>st1. (flush st = Inr st1 \<or> st1 = st) \<and> shapes_l st' = shapes_l st1 \<and>
                 materials_l st' = materials_l st"
  then obtain st1 where f: "flush st = Inr st1 \<or> st1 = st"
    and s: "shapes_l st' = shapes_l st1" and m: "materials_l st' = materials_l st" by blast
  from f r have r1: "resolved st1" using flush_resolved by blast
  from f have "materials_l st1 = materials_l st" using flush_materials by blast
  with m have "materials_l st' = materials_l st1 @ []" by simp
  from resolved_extend[OF r1 s this] show ?thesis .
next
  assume "shapes_l st' = shapes_l st \<and>
          (\<exists>ms ts p. yo__load_mtl fs atof (materials_l st) (textures_l st) p = Inr (ms, ts) \<and>
                      materials_l st' = ms)"
  then obtain ms ts p where s: "shapes_l st' = shapes_l st"
    and l: "yo__load_mtl fs atof (materials_l st) (textures_l st) p = Inr (ms, ts)"
    and m: "materials_l st' = ms" by blast
  from load_mtl_extends[OF l] m obtain extra where "materials_l st' = materials_l st @ extra"
    by blast
  from resolved_extend[OF r s this] show ?thesis .
qed

lemma add_shape_isl_materials:
  "isl (yo__add_shape shapes ms name matname groupname xform elem vert vhash) =
   isl (yo__add_shape shapes ms' name matname groupname xform elem vert vhash)"
  by (simp add: yo__add_shape_def ebind_def assert_def Let_def split: sum.splits prod.splits)

lemma flush_isl_materials: "isl (flush (st\<lparr>materials_l := ms\<rparr>)) = isl (flush st)"
proof -
  have "isl (flush st) = isl (yo__add_shape (shapes_l st) (materials_l st) (name_l st)
      (matname_l st) (groupname_l st) (xform_l st) (elem_l st) (vert_l st) (vhash_l st))" for st :: "'a load_state"
    by (simp add: flush_def ebind_def split: sum.splits prod.splits)
  then show ?thesis using add_shape_isl_materials[of "shapes_l st" ms] by simp
qed

text \<open>
  C9, amended. A flush that emits a shape gives it the pending material name and, as \<open>matid\<close>, the
  index of the first material read so far whose name equals that name without regard to
  case, \<open>-1\<close> where there is none; whether the flush succeeds does not depend on the
  materials. In a scene that \<^verbatim>\<open>yo_load_obj\<close> returns, the \<open>matid\<close> of every shape is so
  resolved against a front part of the scene's materials, those read before the shape was
  flushed: a \<open>matid\<close> that is not \<open>-1\<close> is also the index of the first such material of the
  whole scene, and it is \<open>-1\<close> where the scene has none.
\<close>

theorem material_resolution:
  fixes st :: "'f::{zero,one} load_state" and sc :: "'f yo_scene"
  shows
  "(flush st = Inr st1 \<and> elem_e (elem_l st) \<noteq> [] \<longrightarrow>
      (\<exists>s. shapes_l st1 = shapes_l st @ [s] \<and> matname_s s = matname_l st \<and>
            first_ci_match (matid_s s) (matname_l st) (materials_l st))) \<and>
   (isl (flush (st\<lparr>materials_l := ms\<rparr>)) \<longleftrightarrow> isl (flush st)) \<and>
   (yo_load_obj fs atof filename triangulate ext = Inr sc \<and> sh \<in> set (shapes_sc sc) \<longrightarrow>
      (\<exists>ms0 rest. materials_sc sc = ms0 @ rest \<and>
         first_ci_match (matid_s sh) (matname_s sh) ms0) \<and>
      -1 \<le> matid_s sh \<and>
      (0 \<le> matid_s sh \<longrightarrow> first_ci_match (matid_s sh) (matname_s sh) (materials_sc sc)) \<and>
      ((\<forall>m\<in>set (materials_sc sc). \<not> ci_equal (matname_s sh) (name_m m)) \<longrightarrow>
         matid_s sh = -1))"
proof -
  have A: "flush st = Inr st1 \<and> elem_e (elem_l st) \<noteq> [] \<longrightarrow>
      (\<exists>s. shapes_l st1 = shapes_l st @ [s] \<and> matname_s s = matname_l st \<and>
            first_ci_match (matid_s s) (matname_l st) (materials_l st))"
  proof
    assume a: "flush st = Inr st1 \<and> elem_e (elem_l st) \<noteq> []"
    then have "flush st = Inr st1" by simp
    then show "\<exists>s. shapes_l st1 = shapes_l st @ [s] \<and> matname_s s = matname_l st \<and>
              first_ci_match (matid_s s) (matname_l st) (materials_l st)"
    proof (cases rule: flush_cases)
      case noop
      with a show ?thesis by simp
    next
      case (emit et ne el)
      then show ?thesis
        by (intro exI[of _ "flushed_shape st et ne el"])
           (simp add: flushed_shape_def find_matid_match)
    qed
  qed
  have B: "isl (flush (st\<lparr>materials_l := ms\<rparr>)) \<longleftrightarrow> isl (flush st)"
    by (rule flush_isl_materials)
  have C: "yo_load_obj fs atof filename triangulate ext = Inr sc \<and> sh \<in> set (shapes_sc sc) \<longrightarrow>
      (\<exists>ms0 rest. materials_sc sc = ms0 @ rest \<and>
         first_ci_match (matid_s sh) (matname_s sh) ms0) \<and>
      -1 \<le> matid_s sh \<and>
      (0 \<le> matid_s sh \<longrightarrow> first_ci_match (matid_s sh) (matname_s sh) (materials_sc sc)) \<and>
      ((\<forall>m\<in>set (materials_sc sc). \<not> ci_equal (matname_s sh) (name_m m)) \<longrightarrow>
         matid_s sh = -1)"
  proof
    assume a: "yo_load_obj fs atof filename triangulate ext = Inr sc \<and> sh \<in> set (shapes_sc sc)"
    then obtain content st0 st0' where
      ll: "load_lines fs atof filename triangulate ext init_state (fgets_lines [] content) =
             Inr st0"
      and fl: "flush st0 = Inr st0'"
      and sc: "sc = \<lparr> shapes_sc = shapes_l st0', materials_sc = materials_l st0',
              textures_sc = textures_l st0', cameras_sc = cameras_l st0',
              envs_sc = envs_l st0' \<rparr>"
      by (auto elim: load_obj_Inr)
    have "resolved st0"
    proof (rule load_lines_induct[OF ll])
      show "resolved (init_state :: 'f load_state)" by (simp add: resolved_def init_state_def)
    next
      fix a :: "'f load_state" and l b
      assume "resolved a" "yo_load_obj_line fs atof filename triangulate ext a l = Inr b"
      then show "resolved b" by (rule line_resolved[rotated])
    qed
    from flush_resolved[OF fl this] a sc obtain ms0 rest where
      m: "materials_sc sc = ms0 @ rest" and f: "first_ci_match (matid_s sh) (matname_s sh) ms0"
      by (auto simp: resolved_def)
    from f have r: "-1 \<le> matid_s sh" by (rule first_ci_match_range)
    have p: "first_ci_match (matid_s sh) (matname_s sh) (materials_sc sc)" if "0 \<le> matid_s sh"
      using first_ci_match_append[OF f that] m by simp
    have n: "matid_s sh = -1"
      if "\<forall>m\<in>set (materials_sc sc). \<not> ci_equal (matname_s sh) (name_m m)"
    proof (rule ccontr)
      assume "matid_s sh \<noteq> -1"
      with r have nn: "0 \<le> matid_s sh" by simp
      from p[OF nn] nn that show False by (auto simp: first_ci_match_def)
    qed
    from m f have e: "\<exists>ms0 rest. materials_sc sc = ms0 @ rest \<and>
         first_ci_match (matid_s sh) (matname_s sh) ms0" by blast
    from r p n have "-1 \<le> matid_s sh \<and>
        (0 \<le> matid_s sh \<longrightarrow> first_ci_match (matid_s sh) (matname_s sh) (materials_sc sc)) \<and>
        ((\<forall>m\<in>set (materials_sc sc). \<not> ci_equal (matname_s sh) (name_m m)) \<longrightarrow>
           matid_s sh = -1)" by blast
    with e show "(\<exists>ms0 rest. materials_sc sc = ms0 @ rest \<and>
         first_ci_match (matid_s sh) (matname_s sh) ms0) \<and>
        -1 \<le> matid_s sh \<and>
        (0 \<le> matid_s sh \<longrightarrow> first_ci_match (matid_s sh) (matname_s sh) (materials_sc sc)) \<and>
        ((\<forall>m\<in>set (materials_sc sc). \<not> ci_equal (matname_s sh) (name_m m)) \<longrightarrow>
           matid_s sh = -1)" by (rule conjI)
  qed
  show ?thesis by (rule conjI[OF A conjI[OF B C]])
qed

text \<open>
  \<open>GOLD\<close> resolves to the material \<open>Gold\<close>, the first of two that match; \<open>none\<close> stays
  unresolved and the load succeeds.
\<close>

theorem material_resolution_witness:
  "(\<exists>sc. yo_load_obj example_fs_mtl atoi ''a.obj'' False False = Inr sc \<and>
         map (\<lambda>s. (matname_s s, matid_s s)) (shapes_sc sc) = [(''GOLD'', 1), (''none'', -1)] \<and>
         map name_m (materials_sc sc) = [''iron'', ''Gold'', ''gold''] \<and>
         first_ci_match 1 ''GOLD'' (materials_sc sc)) \<and>
   (\<exists>st1 s. flush example_pending = Inr st1 \<and> elem_e (elem_l example_pending) \<noteq> [] \<and>
           shapes_l st1 = shapes_l example_pending @ [s] \<and>
           first_ci_match (matid_s s) (matname_l example_pending) (materials_l example_pending))"
proof -
  let ?r = "yo_load_obj example_fs_mtl atoi ''a.obj'' False False"
  have "\<not> isl ?r" by code_simp
  then obtain sc where ld: "?r = Inr sc" by (cases ?r) simp_all
  have "map (\<lambda>s. (matname_s s, matid_s s)) (shapes_sc (projr ?r)) =
          [(''GOLD'', 1), (''none'', -1)]"
    by code_simp
  with ld have sh: "map (\<lambda>s. (matname_s s, matid_s s)) (shapes_sc sc) =
          [(''GOLD'', 1), (''none'', -1)]" by simp
  have "map name_m (materials_sc (projr ?r)) = [''iron'', ''Gold'', ''gold'']" by code_simp
  with ld have ms: "map name_m (materials_sc sc) = [''iron'', ''Gold'', ''gold'']" by simp
  from sh obtain s1 s2 where l: "shapes_sc sc = [s1, s2]" and
    s1: "matname_s s1 = ''GOLD''" "matid_s s1 = 1" by auto
  then have "s1 \<in> set (shapes_sc sc)" by simp
  with material_resolution[of _ _ _ example_fs_mtl atoi "''a.obj''" False False sc s1] ld s1
  have fm: "first_ci_match 1 ''GOLD'' (materials_sc sc)" by simp
  have "\<not> isl (flush example_pending)" by code_simp
  then obtain st1 where fl: "flush example_pending = Inr st1"
    by (cases "flush example_pending") simp_all
  have ne: "elem_e (elem_l example_pending) \<noteq> []" by code_simp
  from material_resolution[of example_pending st1 "[]" no_files atoi "''a.obj''" False False
      "projr ?r" s1] fl ne
  obtain s where s: "shapes_l st1 = shapes_l example_pending @ [s]"
    "first_ci_match (matid_s s) (matname_l example_pending) (materials_l example_pending)"
    by blast
  have P1: "\<exists>sc. yo_load_obj example_fs_mtl atoi ''a.obj'' False False = Inr sc \<and>
         map (\<lambda>s. (matname_s s, matid_s s)) (shapes_sc sc) = [(''GOLD'', 1), (''none'', -1)] \<and>
         map name_m (materials_sc sc) = [''iron'', ''Gold'', ''gold''] \<and>
         first_ci_match 1 ''GOLD'' (materials_sc sc)"
    using ld sh ms fm by (intro exI[of _ sc] conjI)
  have P2: "\<exists>st1 s. flush example_pending = Inr st1 \<and> elem_e (elem_l example_pending) \<noteq> [] \<and>
           shapes_l st1 = shapes_l example_pending @ [s] \<and>
           first_ci_match (matid_s s) (matname_l example_pending) (materials_l example_pending)"
    using fl ne s by (intro exI[of _ st1] exI[of _ s] conjI)
  show ?thesis by (rule conjI[OF P1 P2])
qed

text \<open>
  C9 as stated does not hold. A library named after the shape that uses it was flushed: the first shape keeps \<open>-1\<close>
  though the scene that is returned has the material \<open>a\<close>, at index 0, where the second
  shape of the same material name finds it.
\<close>

theorem material_resolution_counterexample:
  "\<exists>sc. yo_load_obj example_fs_late_mtl atoi ''a.obj'' False False = Inr sc \<and>
     map (\<lambda>s. (matname_s s, matid_s s)) (shapes_sc sc) = [(''a'', -1), (''a'', 0)] \<and>
     map name_m (materials_sc sc) = [''a''] \<and>
     ci_equal ''a'' ''a'' \<and>
     \<not> first_ci_match (-1) ''a'' (materials_sc sc)"
proof -
  let ?r = "yo_load_obj example_fs_late_mtl atoi ''a.obj'' False False"
  have "\<not> isl ?r" by code_simp
  then obtain sc where ld: "?r = Inr sc" by (cases ?r) simp_all
  have "map (\<lambda>s. (matname_s s, matid_s s)) (shapes_sc (projr ?r)) = [(''a'', -1), (''a'', 0)]"
    by code_simp
  with ld have sh: "map (\<lambda>s. (matname_s s, matid_s s)) (shapes_sc sc) =
      [(''a'', -1), (''a'', 0)]" by simp
  have "map name_m (materials_sc (projr ?r)) = [''a'']" by code_simp
  with ld have ms: "map name_m (materials_sc sc) = [''a'']" by simp
  have ci: "ci_equal ''a'' ''a''" by (simp add: ci_equal_def)
  from ms obtain m where m: "materials_sc sc = [m]" "name_m m = ''a''" by auto
  with ci have no: "\<not> first_ci_match (-1) ''a'' (materials_sc sc)"
    by (simp add: first_ci_match_def)
  from ld sh ms ci no show ?thesis by (intro exI[of _ sc] conjI)
qed


section \<open>Shape boundaries\<close>

text \<open>
  C6. A line whose keyword is \<open>o\<close>, \<open>g\<close> or \<open>usemtl\<close>, processed to its end: when the
  pending element buffer is not empty, exactly one shape is appended, and it carries the
  name, group and material name from before the line; when the buffer is empty, no shape
  is appended; then the name the line gives is set.
\<close>

theorem shape_boundary:
  assumes tok: "yo__splitws line 1024 = k # rest"
    and kw: "k = ''o'' \<or> k = ''g'' \<or> k = ''usemtl''"
    and ok: "yo_load_obj_line fs atof filename triangulate ext st line = Inr st'"
  shows "(elem_e (elem_l st) \<noteq> [] \<longrightarrow>
            (\<exists>s. shapes_l st' = shapes_l st @ [s] \<and> name_s s = name_l st \<and>
                  groupname_s s = groupname_l st \<and> matname_s s = matname_l st)) \<and>
         (elem_e (elem_l st) = [] \<longrightarrow> shapes_l st' = shapes_l st) \<and>
         rest \<noteq> [] \<and>
         (k = ''o'' \<longrightarrow> name_l st' = rest ! 0) \<and>
         (k = ''g'' \<longrightarrow> groupname_l st' = rest ! 0) \<and>
         (k = ''usemtl'' \<longrightarrow> matname_l st' = rest ! 0)"
proof -
  have "\<exists>st1. flush st = Inr st1 \<and> rest \<noteq> [] \<and> shapes_l st' = shapes_l st1 \<and>
          (k = ''o'' \<longrightarrow> name_l st' = rest ! 0) \<and>
          (k = ''g'' \<longrightarrow> groupname_l st' = rest ! 0) \<and>
          (k = ''usemtl'' \<longrightarrow> matname_l st' = rest ! 0)"
    using kw
  proof (elim disjE)
    assume "k = ''o''"
    with tok ok show ?thesis
      by (auto simp: step_o ebind_def tok1_or_null_def split: sum.splits if_splits)
  next
    assume "k = ''g''"
    with tok ok show ?thesis
      by (auto simp: step_g ebind_def tok1_or_null_def split: sum.splits if_splits)
  next
    assume "k = ''usemtl''"
    with tok ok show ?thesis
      by (auto simp: step_usemtl ebind_def tok1_or_null_def split: sum.splits if_splits)
  qed
  then obtain st1 where fl: "flush st = Inr st1" and r: "rest \<noteq> []"
    and sh: "shapes_l st' = shapes_l st1"
    and nm: "k = ''o'' \<longrightarrow> name_l st' = rest ! 0" "k = ''g'' \<longrightarrow> groupname_l st' = rest ! 0"
      "k = ''usemtl'' \<longrightarrow> matname_l st' = rest ! 0"
    by blast
  from fl have "(elem_e (elem_l st) \<noteq> [] \<longrightarrow>
            (\<exists>s. shapes_l st1 = shapes_l st @ [s] \<and> name_s s = name_l st \<and>
                  groupname_s s = groupname_l st \<and> matname_s s = matname_l st)) \<and>
         (elem_e (elem_l st) = [] \<longrightarrow> shapes_l st1 = shapes_l st)"
    by (cases rule: flush_cases) (simp_all add: flushed_shape_def)
  with r sh nm show ?thesis by simp
qed

text \<open>An \<open>o\<close> line behind a pending point, and a \<open>g\<close> line at the start of a file.\<close>

theorem shape_boundary_witness:
  "(\<exists>st'. yo_load_obj_line no_files atoi ''a.obj'' False False example_pending
            (''o x'' @ newline) = Inr st' \<and>
          elem_e (elem_l example_pending) \<noteq> [] \<and>
          (\<exists>s. shapes_l st' = shapes_l example_pending @ [s] \<and>
                name_s s = name_l example_pending) \<and>
          name_l st' = ''x'') \<and>
   (\<exists>st'. yo_load_obj_line no_files atoi ''a.obj'' False False (init_state :: int load_state)
            (''g y'' @ newline) = Inr st' \<and>
          elem_e (elem_l (init_state :: int load_state)) = [] \<and>
          shapes_l st' = shapes_l (init_state :: int load_state) \<and> groupname_l st' = ''y'')"
proof -
  have t1: "yo__splitws (''o x'' @ newline) 1024 = ''o'' # [''x'']" by code_simp
  have t2: "yo__splitws (''g y'' @ newline) 1024 = ''g'' # [''y'']" by code_simp
  have p1: "elem_e (elem_l example_pending) \<noteq> []" by code_simp
  have p2: "elem_e (elem_l (init_state :: int load_state)) = []" by code_simp
  have "\<not> isl (yo_load_obj_line no_files atoi ''a.obj'' False False example_pending
                 (''o x'' @ newline))"
    by code_simp
  then obtain a where
    ok1: "yo_load_obj_line no_files atoi ''a.obj'' False False example_pending
            (''o x'' @ newline) = Inr a"
    by (cases "yo_load_obj_line no_files atoi ''a.obj'' False False example_pending
                 (''o x'' @ newline)") simp_all
  have "\<not> isl (yo_load_obj_line no_files atoi ''a.obj'' False False
                 (init_state :: int load_state) (''g y'' @ newline))"
    by code_simp
  then obtain b where
    ok2: "yo_load_obj_line no_files atoi ''a.obj'' False False (init_state :: int load_state)
            (''g y'' @ newline) = Inr b"
    by (cases "yo_load_obj_line no_files atoi ''a.obj'' False False
                 (init_state :: int load_state) (''g y'' @ newline)") simp_all
  from shape_boundary[OF t1 _ ok1] p1 have
    c1: "(\<exists>s. shapes_l a = shapes_l example_pending @ [s] \<and> name_s s = name_l example_pending)
         \<and> name_l a = ''x''"
    by auto
  from shape_boundary[OF t2 _ ok2] p2 have
    c2: "shapes_l b = shapes_l (init_state :: int load_state) \<and> groupname_l b = ''y''"
    by auto
  from ok1 p1 c1 ok2 p2 c2 show ?thesis by blast
qed


section \<open>Runs without vertices\<close>

lemma rle_runs_append: "rle_runs (a @ b) = rle_runs a @ rle_runs b"
  by (simp add: rle_runs_def)

lemma rle_runs_nonempty: "runs \<noteq> [] \<Longrightarrow> rle_runs runs \<noteq> []"
  by (cases runs) (simp_all add: rle_runs_Cons)

lemma zero_run_no_flush:
  assumes "zero_run_pending st"
  shows "flush st \<noteq> Inr st1"
proof
  assume fl: "flush st = Inr st1"
  from assms obtain runs where
    et: "etype_e (elem_l st) = yo_etype_polygon \<or> etype_e (elem_l st) = yo_etype_polyline"
    and buf: "elem_e (elem_l st) = rle_runs runs" and z: "[] \<in> set runs"
    by (auto simp: zero_run_pending_def)
  from z have "runs \<noteq> []" by auto
  with buf have ne: "elem_e (elem_l st) \<noteq> []" by (simp add: rle_runs_nonempty)
  from run_min_bound[OF z, of 1000000] have m: "\<not> run_min 1000000 runs > 0" by simp
  from fl show False
  proof (cases rule: flush_cases)
    case noop
    with ne show False by simp
  next
    case (emit et' ne' el')
    from emit(2) show False unfolding shape_elems_rle[OF et buf] using m by simp
  qed
qed

lemma verts_plain_Cons_Inr:
  "verts_plain ov (tk # tks) (vh, vd, el) = Inr r \<Longrightarrow>
   \<exists>x vh1 vd1. yo__parse_vert tk vh ov = Inr (x, vh1) \<and>
      yo__add_shape_vert vd x ov = Inr vd1 \<and>
      verts_plain ov tks (vh1, vd1, el @ [vid x]) = Inr r"
  by (auto simp: ebind_def split: sum.splits prod.splits)

lemma verts_plain_elems:
  "verts_plain ov toks (vh, vd, el) = Inr (vh', vd', el') \<Longrightarrow>
   \<exists>ids. el' = el @ ids \<and> length ids = length toks"
proof (induction toks arbitrary: vh vd el)
  case Nil
  then show ?case by simp
next
  case (Cons tk tks)
  from verts_plain_Cons_Inr[OF Cons.prems] obtain x :: yo__vert and vh1 vd1 where
    r: "verts_plain ov tks (vh1, vd1, el @ [vid x]) = Inr (vh', vd', el')"
    by blast
  from Cons.IH[OF r] obtain ids where "el' = (el @ [vid x]) @ ids" "length ids = length tks"
    by blast
  then show ?case by (intro exI[of _ "vid x # ids"]) simp
qed

lemma elem_record_zero_run:
  assumes z: "zero_run_pending st"
    and r: "elem_record st et header loop = Inr st'"
    and plain: "et = yo_etype_polygon \<or> et = yo_etype_polyline \<Longrightarrow>
                  header = [int (length toks)] \<and> loop = verts_plain ov toks"
    and other: "et = yo_etype_polygon \<or> et = yo_etype_polyline \<or> et = yo_etype_triangle \<or>
                et = yo_etype_line \<or> et = yo_etype_point"
  shows "zero_run_pending st'"
proof -
  from elem_record_Inr[OF r] obtain st1 vh vd el where
    c: "if etype_e (elem_l st) \<noteq> et then flush st = Inr st1 else st1 = st"
    and l: "loop (vhash_l st1, vert_l st1, elem_e (elem_l st1) @ header) = Inr (vh, vd, el)"
    and s: "st' = st1\<lparr> vhash_l := vh, vert_l := vd, elem_l := \<lparr> etype_e = et, elem_e = el \<rparr> \<rparr>"
    by blast
  from c zero_run_no_flush[OF z] have same: "etype_e (elem_l st) = et" "st1 = st"
    by (auto split: if_splits)
  with z have et: "et = yo_etype_polygon \<or> et = yo_etype_polyline"
    by (simp add: zero_run_pending_def)
  from plain[OF et] have h: "header = [int (length toks)]" and lp: "loop = verts_plain ov toks"
    by simp_all
  from z obtain runs where buf: "elem_e (elem_l st) = rle_runs runs" and zr: "[] \<in> set runs"
    by (auto simp: zero_run_pending_def)
  from l[unfolded lp same h] verts_plain_elems obtain ids where
    "el = (elem_e (elem_l st) @ [int (length toks)]) @ ids" "length ids = length toks"
    by blast
  with buf have "el = rle_runs (runs @ [ids])"
    by (simp add: rle_runs_append rle_runs_Cons rle_runs_Nil)
  moreover from zr have "[] \<in> set (runs @ [ids])" by simp
  ultimately have "\<exists>runs. el = rle_runs runs \<and> [] \<in> set runs" by blast
  with s et show ?thesis by (simp add: zero_run_pending_def)
qed

lemma line_zero_run:
  assumes step: "yo_load_obj_line fs atof filename triangulate ext st line = Inr st'"
    and z: "zero_run_pending st"
  shows "zero_run_pending st'"
  using step
proof (cases rule: load_line_cases)
  case (pools ov')
  with z show ?thesis by (simp add: zero_run_pending_def)
next
  case (xform a)
  with z show ?thesis by (simp add: zero_run_pending_def)
next
  case (camera st1 "from" to vh2 cams vh3 tok)
  from camera(1) zero_run_no_flush[OF z, of st1] show ?thesis by simp
next
  case (env st1 "from" to vh2 es vh3 tok)
  from env(1) zero_run_no_flush[OF z, of st1] show ?thesis by simp
next
  case (elems toks)
  have ne: "yo_etype_triangle \<noteq> yo_etype_polygon" "yo_etype_triangle \<noteq> yo_etype_polyline"
    "yo_etype_line \<noteq> yo_etype_polygon" "yo_etype_line \<noteq> yo_etype_polyline"
    "yo_etype_point \<noteq> yo_etype_polygon" "yo_etype_point \<noteq> yo_etype_polyline"
    by (simp_all add: yo_etype_triangle_def yo_etype_polygon_def yo_etype_polyline_def
          yo_etype_line_def yo_etype_point_def)
  from elems show ?thesis
  proof (elim disjE)
    assume "elem_record st yo_etype_polygon [int (length toks)]
              (verts_plain (obj_vert_l st) toks) = Inr st'"
    then show ?thesis by (rule elem_record_zero_run[OF z]) simp_all
  next
    assume "elem_record st yo_etype_polyline [int (length toks)]
              (verts_plain (obj_vert_l st) toks) = Inr st'"
    then show ?thesis by (rule elem_record_zero_run[OF z]) simp_all
  next
    assume "elem_record st yo_etype_triangle [] (verts_fan (obj_vert_l st) 1 0 toks) = Inr st'"
    then show ?thesis by (rule elem_record_zero_run[OF z]) (simp_all add: ne)
  next
    assume "elem_record st yo_etype_line [] (verts_strip (obj_vert_l st) 1 toks) = Inr st'"
    then show ?thesis by (rule elem_record_zero_run[OF z]) (simp_all add: ne)
  next
    assume "elem_record st yo_etype_point [] (verts_plain (obj_vert_l st) toks) = Inr st'"
    then show ?thesis by (rule elem_record_zero_run[OF z]) (simp_all add: ne)
  qed
next
  case (names st1 n)
  from names(1) zero_run_no_flush[OF z, of st1] show ?thesis by simp
next
  case (mtllib ms ts p)
  with z show ?thesis by (simp add: zero_run_pending_def)
qed

lemma load_lines_append:
  "load_lines fs atof filename triangulate ext st (pre @ post) =
   ebind (load_lines fs atof filename triangulate ext st pre)
     (\<lambda>st1. load_lines fs atof filename triangulate ext st1 post)"
proof (induction pre arbitrary: st)
  case Nil
  then show ?case by (simp add: ebind_def)
next
  case (Cons l ls)
  then show ?case by (simp add: ebind_def split: sum.splits)
qed

text \<open>
  C7. Once the pending buffer of polygons or polylines holds a run of length 0, the load
  returns no scene, whatever lines follow: every flush of that buffer stops at
  \<^verbatim>\<open>assert(minf > 0)\<close>, no line takes the run out of the buffer, and the end of the input
  flushes.
\<close>

theorem zero_run_fails:
  assumes opened: "fs filename = Some content"
    and cut: "fgets_lines [] content = pre @ post"
    and pre: "load_lines fs atof filename triangulate ext init_state pre = Inr st"
    and z: "zero_run_pending st"
  shows "\<exists>e. yo_load_obj fs atof filename triangulate ext = Inl e"
proof (cases "yo_load_obj fs atof filename triangulate ext")
  case (Inl e)
  then show ?thesis by blast
next
  case (Inr sc)
  then obtain content' st0 st0' where
    f': "fs filename = Some content'" and
    ll: "load_lines fs atof filename triangulate ext init_state (fgets_lines [] content') = Inr st0"
    and fl: "flush st0 = Inr st0'"
    by (auto elim: load_obj_Inr)
  from f' opened have "content' = content" by simp
  with ll cut pre have post: "load_lines fs atof filename triangulate ext st post = Inr st0"
    by (simp add: load_lines_append ebind_def)
  have "zero_run_pending st0"
  proof (rule load_lines_induct[where I = zero_run_pending, OF post z])
    fix a :: "'a load_state" and l b
    assume "zero_run_pending a" "yo_load_obj_line fs atof filename triangulate ext a l = Inr b"
    then show "zero_run_pending b" by (rule line_zero_run[rotated])
  qed
  from zero_run_no_flush[OF this, of st0'] fl show ?thesis by simp
qed

text \<open>A file whose first line is \<open>f\<close> alone, loaded without triangulation.\<close>

theorem zero_run_fails_witness:
  "example_fs_empty_face ''a.obj'' = Some (''f'' @ newline @ ''v 0 0 0'' @ newline) \<and>
   fgets_lines [] (''f'' @ newline @ ''v 0 0 0'' @ newline) =
     [''f'' @ newline] @ [''v 0 0 0'' @ newline] \<and>
   map_sum id (\<lambda>st. elem_e (elem_l st))
     (load_lines example_fs_empty_face atoi ''a.obj'' False False
        (init_state :: int load_state) [''f'' @ newline]) = Inr (rle_runs [[]]) \<and>
   yo_load_obj example_fs_empty_face atoi ''a.obj'' False False =
     (Inl AssertFailed :: error + int yo_scene)"
proof -
  let ?pre = "load_lines example_fs_empty_face atoi ''a.obj'' False False
                (init_state :: int load_state) [''f'' @ newline]"
  have opened: "example_fs_empty_face ''a.obj'' = Some (''f'' @ newline @ ''v 0 0 0'' @ newline)"
    by (simp add: example_fs_empty_face_def)
  have cut: "fgets_lines [] (''f'' @ newline @ ''v 0 0 0'' @ newline) =
               [''f'' @ newline] @ [''v 0 0 0'' @ newline]"
    by code_simp
  have "\<not> isl ?pre" by code_simp
  then obtain st where pre: "?pre = Inr st" by (cases ?pre) simp_all
  have "map_sum id (\<lambda>st. elem_e (elem_l st)) ?pre = Inr (rle_runs [[]])" by code_simp
  with pre have buf: "elem_e (elem_l st) = rle_runs [[]]" by simp
  have "map_sum id (\<lambda>st. etype_e (elem_l st)) ?pre = Inr yo_etype_polygon" by code_simp
  with pre have et: "etype_e (elem_l st) = yo_etype_polygon" by simp
  have "\<exists>runs. elem_e (elem_l st) = rle_runs runs \<and> [] \<in> set runs"
    using buf by (intro exI[of _ "[[]]"]) simp
  with et have z: "zero_run_pending st" by (simp add: zero_run_pending_def)
  from zero_run_fails[OF opened cut pre z]
  obtain e where "yo_load_obj example_fs_empty_face atoi ''a.obj'' False False =
                    (Inl e :: error + int yo_scene)" by blast
  moreover have "yo_load_obj example_fs_empty_face atoi ''a.obj'' False False =
                   (Inl AssertFailed :: error + int yo_scene)" by code_simp
  ultimately show ?thesis using opened cut pre buf by simp
qed


section \<open>Triangulated faces\<close>

lemma at_last: "at el (int (length el) - 1) = Inr a \<Longrightarrow> el \<noteq> [] \<and> a = last el"
  by (cases el rule: rev_cases) (auto simp: at_def split: if_splits)

lemma verts_fan_Cons_Inr:
  assumes "verts_fan ov t vi0 (tk # tks) (vh, vd, el) = Inr r"
  shows "\<exists>(x :: yo__vert) vh1 vd1.
      yo__parse_vert tk vh ov = Inr (x, vh1) \<and>
      yo__add_shape_vert vd x ov = Inr vd1 \<and> (t > 3 \<longrightarrow> el \<noteq> []) \<and>
      verts_fan ov (t + 1) (if t = 1 then vid x else vi0) tks
        (vh1, vd1, (if t > 3 then el @ [if t = 1 then vid x else vi0, last el] else el) @ [vid x])
        = Inr r"
proof -
  from assms obtain x vh1 where p: "yo__parse_vert tk vh ov = Inr (x, vh1)"
    by (auto simp: ebind_def split: sum.splits)
  with assms obtain vd1 where a: "yo__add_shape_vert vd x ov = Inr vd1"
    by (auto simp: ebind_def split: sum.splits)
  show ?thesis
  proof (cases "t > 3")
    case True
    with assms p a obtain vil where v: "at el (int (length el) - 1) = Inr vil"
      by (auto simp: ebind_def Let_def split: sum.splits)
    from at_last[OF v] have "el \<noteq> []" "vil = last el" by simp_all
    with assms p a v True show ?thesis
      by (intro exI[of _ x] exI[of _ vh1] exI[of _ vd1]) (simp add: ebind_def Let_def)
  next
    case False
    with assms p a show ?thesis
      by (intro exI[of _ x] exI[of _ vh1] exI[of _ vd1]) (simp add: ebind_def Let_def)
  qed
qed

lemma verts_fan_plain:
  "verts_fan ov t vi0 toks (vh, vd, el) = Inr (vh', vd', el') \<Longrightarrow>
   \<exists>ids. verts_plain ov toks (vh, vd, acc) = Inr (vh', vd', acc @ ids) \<and>
         length ids = length toks \<and> el' = fan_out t vi0 el ids"
proof (induction toks arbitrary: t vi0 vh vd el acc)
  case Nil
  then show ?case by simp
next
  case (Cons tk tks)
  from verts_fan_Cons_Inr[OF Cons.prems] obtain x :: yo__vert and vh1 vd1 where
    p: "yo__parse_vert tk vh ov = Inr (x, vh1)" and
    a: "yo__add_shape_vert vd x ov = Inr vd1" and
    r: "verts_fan ov (t + 1) (if t = 1 then vid x else vi0) tks
        (vh1, vd1, (if t > 3 then el @ [if t = 1 then vid x else vi0, last el] else el) @ [vid x])
        = Inr (vh', vd', el')"
    by blast
  from Cons.IH[OF r, of "acc @ [vid x]"] obtain ids where
    pl: "verts_plain ov tks (vh1, vd1, acc @ [vid x]) = Inr (vh', vd', (acc @ [vid x]) @ ids)"
    and len: "length ids = length tks"
    and out: "el' = fan_out (t + 1) (if t = 1 then vid x else vi0)
        ((if t > 3 then el @ [if t = 1 then vid x else vi0, last el] else el) @ [vid x]) ids"
    by blast
  show ?case
    using p a pl len out
    by (intro exI[of _ "vid x # ids"]) (simp add: ebind_def)
qed

lemma fan_out_tail:
  "3 < t \<Longrightarrow> el \<noteq> [] \<Longrightarrow>
   fan_out t vi0 el ids =
     el @ concat (map (\<lambda>k. [vi0, (last el # ids) ! k, ids ! k]) [0..<length ids])"
proof (induction ids arbitrary: t el)
  case Nil
  then show ?case by simp
next
  case (Cons i ids)
  let ?el = "el @ [vi0, last el, i]"
  from Cons.prems have t1: "t \<noteq> 1" by simp
  have "fan_out t vi0 el (i # ids) = fan_out (t + 1) vi0 ?el ids"
    using Cons.prems t1 by simp
  also have "\<dots> = ?el @ concat (map (\<lambda>k. [vi0, (last ?el # ids) ! k, ids ! k]) [0..<length ids])"
    using Cons.prems by (intro Cons.IH) simp_all
  also have "\<dots> = el @ concat (map (\<lambda>k. [vi0, (last el # i # ids) ! k, (i # ids) ! k])
                                  [0..<length (i # ids)])"
  proof -
    have "[0..<length (i # ids)] = 0 # map Suc [0..<length ids]"
      by (simp add: upt_conv_Cons map_Suc_upt del: upt_Suc)
    then show ?thesis by (simp add: comp_def)
  qed
  finally show ?case .
qed

lemma fan_out_record:
  assumes "ids = a # b # c # rest"
  shows "fan_out 1 vi0 el ids =
           el @ concat (map (\<lambda>k. [ids ! 0, ids ! (k + 1), ids ! (k + 2)]) [0..<length ids - 2])"
proof -
  have four: "Suc (Suc (Suc (Suc 0))) = 4" by simp
  have "fan_out 1 vi0 el ids = fan_out 4 a (el @ [a, b, c]) rest"
    by (simp add: assms four)
  also have "\<dots> = (el @ [a, b, c]) @
      concat (map (\<lambda>k. [a, (last (el @ [a, b, c]) # rest) ! k, rest ! k]) [0..<length rest])"
    by (rule fan_out_tail) simp_all
  also have "\<dots> = el @ concat (map (\<lambda>k. [ids ! 0, ids ! (k + 1), ids ! (k + 2)])
                                  [0..<length ids - 2])"
  proof -
    have "[0..<length ids - 2] = 0 # map Suc [0..<length rest]"
      by (simp add: assms upt_conv_Cons map_Suc_upt del: upt_Suc)
    then show ?thesis by (simp add: assms comp_def)
  qed
  finally show ?thesis .
qed

text \<open>
  The tokens of a line that has no more words than the tokenizer takes are its words;
  where it has exactly as many, the last token keeps the white space behind it.
\<close>

lemma ws_split_cur:
  "cur \<noteq> [] \<Longrightarrow>
   ws_split cur cs =
     (cur @ takeWhile (\<lambda>c. \<not> isspace c) cs) # ws_split [] (dropWhile (\<lambda>c. \<not> isspace c) cs)"
  by (induction cs arbitrary: cur) auto

lemma ws_split_none: "ws_split [] cs = [] \<longleftrightarrow> list_all isspace cs"
  by (induction cs) (auto simp: ws_split_cur)

lemma words_of_Nil: "toks = [] \<or> p \<or> last toks \<noteq> [] \<Longrightarrow> words_of toks p [] = toks"
  by (auto simp: words_of_def)

lemma words_of_step:
  assumes "toks = [] \<or> p \<or> last toks \<noteq> []"
  shows "words_of toks p (c # cs) =
     (if isspace c then words_of toks True cs
      else if toks = [] \<or> p then words_of (toks @ [[c]]) False cs
      else words_of (butlast toks @ [last toks @ [c]]) False cs)"
  using assms by (auto simp: words_of_def)

lemma words_of_length: "toks = [] \<or> p \<or> last toks \<noteq> [] \<Longrightarrow> length toks \<le> length (words_of toks p cs)"
  by (auto simp: words_of_def ws_split_cur)

lemma words_of_full:
  assumes "toks = [] \<or> p \<or> last toks \<noteq> []" "length (words_of toks p cs) \<le> length toks"
    "toks \<noteq> []"
  shows "\<exists>sp. list_all isspace sp \<and>
     butlast toks @ [last toks @ cs] = pad_last (words_of toks p cs) sp"
proof (cases "p")
  case True
  with assms have e: "ws_split [] cs = []" by (simp add: words_of_def)
  then have "list_all isspace cs" by (simp add: ws_split_none)
  with True assms e show ?thesis
    by (intro exI[of _ cs]) (simp add: words_of_def pad_last_def)
next
  case False
  from assms(3) obtain ts t where toks: "toks = ts @ [t]" by (cases toks rule: rev_cases) simp_all
  with False assms(1) have l: "t \<noteq> []" by simp
  let ?w = "t @ takeWhile (\<lambda>c. \<not> isspace c) cs"
  let ?r = "dropWhile (\<lambda>c. \<not> isspace c) cs"
  from False toks have w: "words_of toks p cs = ts @ ?w # ws_split [] ?r"
    by (simp add: words_of_def ws_split_cur[OF l])
  with assms(2) toks have e: "ws_split [] ?r = []" by simp
  then have sp: "list_all isspace ?r" by (simp add: ws_split_none)
  from w e have W: "words_of toks p cs = ts @ [?w]" by simp
  have "butlast toks @ [last toks @ cs] = pad_last (ts @ [?w]) ?r"
    by (simp add: toks pad_last_def)
  with sp show ?thesis unfolding W by (intro exI[of _ ?r] conjI)
qed

lemma splitws_loop_words:
  assumes "toks = [] \<or> p \<or> last toks \<noteq> []" and "length (words_of toks p cs) \<le> m"
  shows "\<exists>sp. list_all isspace sp \<and> splitws_loop m cs toks p = pad_last (words_of toks p cs) sp"
  using assms
proof (induction cs arbitrary: toks p)
  case Nil
  from Nil.prems(1) have "words_of toks p [] = toks" by (rule words_of_Nil)
  then show ?case by (intro exI[of _ "[]"]) (simp add: pad_last_def)
next
  case (Cons c cs)
  show ?case
  proof (cases "length toks < m")
    case True
    show ?thesis
    proof (cases "isspace c")
      case sp: True
      from Cons.prems sp have "length (words_of toks True cs) \<le> m"
        by (simp add: words_of_step)
      from Cons.IH[OF _ this] True sp Cons.prems(1) show ?thesis
        by (simp add: words_of_step)
    next
      case ns: False
      show ?thesis
      proof (cases "toks = [] \<or> p")
        case b: True
        from Cons.prems ns b have "length (words_of (toks @ [[c]]) False cs) \<le> m"
          by (simp add: words_of_step)
        from Cons.IH[OF _ this] True ns b Cons.prems(1) show ?thesis
          by (simp add: words_of_step)
      next
        case b: False
        from Cons.prems ns b
        have "length (words_of (butlast toks @ [last toks @ [c]]) False cs) \<le> m"
          by (simp add: words_of_step)
        from Cons.IH[OF _ this] True ns b Cons.prems(1) show ?thesis
          by (simp add: words_of_step)
      qed
    qed
  next
    case False
    with words_of_length[OF Cons.prems(1), of "c # cs"] Cons.prems(2)
    have len: "length (words_of toks p (c # cs)) \<le> length toks" and m: "length toks = m"
      by simp_all
    show ?thesis
    proof (cases "toks = []")
      case True
      with len m show ?thesis by (intro exI[of _ "[]"]) (auto simp add: pad_last_def)
    next
      case ne: False
      from words_of_full[OF Cons.prems(1) len ne] False ne show ?thesis
        by simp
    qed
  qed
qed

lemma splitws_words:
  assumes "length (ws_words (c_str line)) \<le> m"
  shows "\<exists>sp. list_all isspace sp \<and> yo__splitws line m = pad_last (ws_words (c_str line)) sp"
proof -
  have w: "words_of [] False (c_str line) = ws_words (c_str line)"
    by (simp add: words_of_def ws_words_def)
  from assms have "length (words_of [] False (c_str line)) \<le> m" by (simp only: w)
  from splitws_loop_words[OF _ this] show ?thesis
    unfolding w yo__splitws_def by simp
qed

lemma fgets_lines_one:
  assumes "rcd \<noteq> []" "CHR 0x0A \<notin> set (butlast rcd)"
    "length cur + length rcd \<le> 4095" "last rcd = CHR 0x0A \<or> post = []"
  shows "fgets_lines cur (rcd @ post) = (cur @ rcd) # fgets_lines [] post"
  using assms
proof (induction rcd arbitrary: cur)
  case Nil
  then show ?case by simp
next
  case (Cons c r)
  show ?case
  proof (cases "r = []")
    case True
    with Cons.prems show ?thesis by auto
  next
    case False
    with Cons.prems have "c \<noteq> CHR 0x0A" "length cur + 1 \<noteq> 4095" by auto
    moreover from False Cons.prems
    have "fgets_lines (cur @ [c]) (r @ post) = ((cur @ [c]) @ r) # fgets_lines [] post"
      by (intro Cons.IH) auto
    ultimately show ?thesis by simp
  qed
qed

lemma fgets_lines_prefix:
  assumes "pre \<noteq> []" "last pre = CHR 0x0A"
  shows "fgets_lines cur (pre @ rest) = fgets_lines cur pre @ fgets_lines [] rest"
  using assms
proof (induction pre arbitrary: cur)
  case Nil
  then show ?case by simp
next
  case (Cons c r)
  show ?case
  proof (cases "r = []")
    case True
    with Cons.prems show ?thesis by simp
  next
    case False
    with Cons.prems Cons.IH show ?thesis by simp
  qed
qed

lemma fgets_lines_at:
  assumes "pre = [] \<or> last pre = CHR 0x0A"
    "rcd \<noteq> []" "CHR 0x0A \<notin> set (butlast rcd)"
    "length rcd \<le> 4095" "last rcd = CHR 0x0A \<or> post = []"
  shows "fgets_lines [] (pre @ rcd @ post) =
           fgets_lines [] pre @ rcd # fgets_lines [] post"
proof (cases "pre = []")
  case True
  with fgets_lines_one[OF assms(2,3) _ assms(5), of "[]"] assms(4) show ?thesis by simp
next
  case False
  with assms(1) have "last pre = CHR 0x0A" by simp
  from fgets_lines_prefix[OF False this, of "[]" "rcd @ post"]
    fgets_lines_one[OF assms(2,3) _ assms(5), of "[]"] assms(4)
  show ?thesis by simp
qed

text \<open>
  A face record read with triangulation to its end, in terms of the tokens that
  \<^verbatim>\<open>yo__splitws\<close> gives: with \<open>ids\<close> the local ids of the references, the element buffer
  grows by the triples \<open>[ids ! 0, ids ! (k + 1), ids ! (k + 2)]\<close>.
\<close>

lemma fan_record:
  assumes tok: "yo__splitws line 1024 = ''f'' # vts" and n: "3 \<le> length vts"
    and ok: "yo_load_obj_line fs atof filename True ext st line = Inr st'"
  shows "\<exists>st1 vh vd ids.
           (if etype_e (elem_l st) \<noteq> yo_etype_triangle then flush st = Inr st1 else st1 = st) \<and>
           verts_plain (obj_vert_l st) vts (vhash_l st1, vert_l st1, []) = Inr (vh, vd, ids) \<and>
           length ids = length vts \<and>
           etype_e (elem_l st') = yo_etype_triangle \<and>
           elem_e (elem_l st') =
             elem_e (elem_l st1) @
             concat (map (\<lambda>k. [ids ! 0, ids ! (k + 1), ids ! (k + 2)]) [0..<length vts - 2])"
proof -
  from ok tok have
    "elem_record st yo_etype_triangle [] (verts_fan (obj_vert_l st) 1 0 vts) = Inr st'"
    by (simp add: step_f)
  from elem_record_Inr[OF this] obtain st1 vh vd el where
    c: "if etype_e (elem_l st) \<noteq> yo_etype_triangle then flush st = Inr st1 else st1 = st"
    and l: "verts_fan (obj_vert_l st) 1 0 vts (vhash_l st1, vert_l st1, elem_e (elem_l st1) @ [])
              = Inr (vh, vd, el)"
    and s: "st' = st1\<lparr> vhash_l := vh, vert_l := vd,
                       elem_l := \<lparr> etype_e = yo_etype_triangle, elem_e = el \<rparr> \<rparr>"
    by blast
  from verts_fan_plain[OF l, of "[]"] obtain ids where
    pl: "verts_plain (obj_vert_l st) vts (vhash_l st1, vert_l st1, []) = Inr (vh, vd, ids)"
    and len: "length ids = length vts"
    and out: "el = fan_out 1 0 (elem_e (elem_l st1)) ids"
    by auto
  from n len obtain a b c rest where ids: "ids = a # b # c # rest"
    by (cases ids; cases "tl ids"; cases "tl (tl ids)") auto
  from fan_out_record[OF ids] out len
  have "el = elem_e (elem_l st1) @
             concat (map (\<lambda>k. [ids ! 0, ids ! (k + 1), ids ! (k + 2)]) [0..<length vts - 2])"
    by simp
  with c pl len s show ?thesis
    by (intro exI[of _ st1] exI[of _ vh] exI[of _ vd] exI[of _ ids]) simp
qed

lemma face_tokens_of_words:
  assumes "ws_words (c_str line) = ''f'' # refs" "refs \<noteq> []" "length refs \<le> 1023"
  shows "\<exists>vts sp. yo__splitws line 1024 = ''f'' # vts \<and> length vts = length refs \<and>
           butlast vts = butlast refs \<and> list_all isspace sp \<and> last vts = last refs @ sp"
proof -
  from assms have "length (ws_words (c_str line)) \<le> 1024" by simp
  from splitws_words[OF this] obtain sp where sp: "list_all isspace sp"
    and s: "yo__splitws line 1024 = pad_last (''f'' # refs) sp"
    by (auto simp: assms(1))
  from assms(2) have "pad_last (''f'' # refs) sp = ''f'' # (butlast refs @ [last refs @ sp])"
    by (simp add: pad_last_def)
  with s sp assms(2) show ?thesis
    by (intro exI[of _ "butlast refs @ [last refs @ sp]"] exI[of _ sp]) simp
qed

text \<open>
  C4, amended. A face record of \<open>N\<close> vertex references, \<open>3 \<le> N \<le> 1023\<close>, on a line of its own of
  at most 4095 characters with its end, in a file that \<^verbatim>\<open>yo_load_obj\<close> loads with
  triangulation: the line reaches the loop body whole, after the lines before it; its
  tokens are the references, the last one with the white space that may follow it; and
  with \<open>ids\<close> the local ids of the references, in order (what the loop of an
  untriangulated record would push), the element buffer grows by exactly the \<open>N - 2\<close>
  triples \<open>[ids ! 0, ids ! (k + 1), ids ! (k + 2)]\<close>, each with the record's first vertex
  in front, and the pending type is the triangle.
\<close>

theorem fan_triangulation:
  assumes opened: "fs filename = Some (pre @ rcd @ post)"
    and start: "pre = [] \<or> last pre = CHR 0x0A"
    and line: "CHR 0x0A \<notin> set (butlast rcd)" "last rcd = CHR 0x0A \<or> post = []"
    and fits: "length rcd \<le> 4095"
    and face: "ws_words (c_str rcd) = ''f'' # refs"
    and n: "3 \<le> length refs" "length refs \<le> 1023"
    and ok: "yo_load_obj fs atof filename True ext = Inr sc"
  shows "\<exists>st st' st1 vts sp vh vd ids.
           load_lines fs atof filename True ext init_state (fgets_lines [] pre) = Inr st \<and>
           yo_load_obj_line fs atof filename True ext st rcd = Inr st' \<and>
           (if etype_e (elem_l st) \<noteq> yo_etype_triangle then flush st = Inr st1 else st1 = st) \<and>
           yo__splitws rcd 1024 = ''f'' # vts \<and> length vts = length refs \<and>
           butlast vts = butlast refs \<and> list_all isspace sp \<and> last vts = last refs @ sp \<and>
           verts_plain (obj_vert_l st) vts (vhash_l st1, vert_l st1, []) = Inr (vh, vd, ids) \<and>
           length ids = length refs \<and>
           etype_e (elem_l st') = yo_etype_triangle \<and>
           elem_e (elem_l st') =
             elem_e (elem_l st1) @
             concat (map (\<lambda>k. [ids ! 0, ids ! (k + 1), ids ! (k + 2)]) [0..<length refs - 2])"
proof -
  from face have ne: "rcd \<noteq> []" by (auto simp: ws_words_def c_str_def)
  from ok obtain content stf where
    c: "fs filename = Some content" and
    ll: "load_lines fs atof filename True ext init_state (fgets_lines [] content) = Inr stf"
    by (rule load_obj_Inr)
  from c opened have content: "content = pre @ rcd @ post" by simp
  have cut: "fgets_lines [] content = fgets_lines [] pre @ rcd # fgets_lines [] post"
    unfolding content by (rule fgets_lines_at[OF start ne line(1) fits line(2)])
  from ll obtain st where
    before: "load_lines fs atof filename True ext init_state (fgets_lines [] pre) = Inr st"
    and after: "load_lines fs atof filename True ext st (rcd # fgets_lines [] post) = Inr stf"
    unfolding cut load_lines_append by (auto simp: ebind_def split: sum.splits)
  from after obtain st' where
    step: "yo_load_obj_line fs atof filename True ext st rcd = Inr st'"
    by (auto simp: ebind_def split: sum.splits)
  from n have "refs \<noteq> []" by auto
  from face_tokens_of_words[OF face this n(2)] obtain vts sp where
    tok: "yo__splitws rcd 1024 = ''f'' # vts" and len: "length vts = length refs"
    and bl: "butlast vts = butlast refs" and sp: "list_all isspace sp"
    and la: "last vts = last refs @ sp"
    by blast
  from n(1) len have "3 \<le> length vts" by simp
  from fan_record[OF tok this step] obtain st1 vh vd ids where
    f: "if etype_e (elem_l st) \<noteq> yo_etype_triangle then flush st = Inr st1 else st1 = st"
    and pl: "verts_plain (obj_vert_l st) vts (vhash_l st1, vert_l st1, []) = Inr (vh, vd, ids)"
    and li: "length ids = length vts"
    and et: "etype_e (elem_l st') = yo_etype_triangle"
    and el: "elem_e (elem_l st') =
             elem_e (elem_l st1) @
             concat (map (\<lambda>k. [ids ! 0, ids ! (k + 1), ids ! (k + 2)]) [0..<length vts - 2])"
    by blast
  from li len have li': "length ids = length refs" by simp
  from el len have el': "elem_e (elem_l st') =
             elem_e (elem_l st1) @
             concat (map (\<lambda>k. [ids ! 0, ids ! (k + 1), ids ! (k + 2)]) [0..<length refs - 2])"
    by simp
  from before step f tok len bl sp la pl li' et el' show ?thesis
    by (intro exI[of _ st] exI[of _ st'] exI[of _ st1] exI[of _ vts] exI[of _ sp]
          exI[of _ vh] exI[of _ vd] exI[of _ ids] conjI)
qed

text \<open>
  The quad \<open>f 1 2 3 4\<close> behind four positions gives the triples \<open>[0, 1, 2]\<close> and
  \<open>[0, 2, 3]\<close>, and the file as a whole one shape of two triangles.
\<close>

theorem fan_triangulation_witness:
  "ws_words (c_str (''f 1 2 3 4'' @ newline)) = ''f'' # [''1'', ''2'', ''3'', ''4''] \<and>
   (\<exists>st st'.
      load_lines example_fs_quad atoi ''a.obj'' True False init_state
        (fgets_lines [] example_quad_positions) = Inr st \<and>
      yo_load_obj_line example_fs_quad atoi ''a.obj'' True False st (''f 1 2 3 4'' @ newline) =
        Inr st' \<and>
      etype_e (elem_l st') = yo_etype_triangle \<and>
      elem_e (elem_l st') = [0, 1, 2] @ [0, 2, 3]) \<and>
   map_sum id (\<lambda>sc. map (\<lambda>s. (etype_s s, nelems_s s, elem_s s)) (shapes_sc sc))
     (yo_load_obj example_fs_quad atoi ''a.obj'' True False) =
     Inr [(3, 2, [0, 1, 2] @ [0, 2, 3])]"
proof -
  let ?st = example_four_positions
  let ?rcd = "''f 1 2 3 4'' @ newline"
  let ?refs = "[''1'', ''2'', ''3'', ''4'']"
  let ?r = "yo_load_obj example_fs_quad atoi ''a.obj'' True False"
  have opened: "example_fs_quad ''a.obj'' = Some (example_quad_positions @ ?rcd @ [])"
    by (simp add: example_fs_quad_def example_quad_positions_def)
  have start: "example_quad_positions = [] \<or> last example_quad_positions = CHR 0x0A"
    by (simp add: example_quad_positions_def newline_def)
  have l1: "CHR 0x0A \<notin> set (butlast ?rcd)" by (simp add: newline_def)
  have l2: "last ?rcd = CHR 0x0A \<or> ([] :: string) = []" by simp
  have fits: "length ?rcd \<le> 4095" by (simp add: newline_def)
  have face: "ws_words (c_str ?rcd) = ''f'' # ?refs" by code_simp
  have "\<not> isl ?r" by code_simp
  then obtain sc where ok: "?r = Inr sc" by (cases ?r) simp_all
  have before: "\<not> isl (load_lines example_fs_quad atoi ''a.obj'' True False init_state
        (fgets_lines [] example_quad_positions))"
    by code_simp
  have tok: "yo__splitws ?rcd 1024 = ''f'' # ?refs" by code_simp
  have e: "elem_e (elem_l ?st) = []" by code_simp
  have t: "etype_e (elem_l ?st) \<noteq> yo_etype_triangle" by code_simp
  have pl: "map_sum id (\<lambda>r. snd (snd r))
              (verts_plain (obj_vert_l ?st) ?refs (vhash_l ?st, vert_l ?st, [])) =
            Inr [0, 1, 2, 3]"
    by code_simp
  from fan_triangulation[OF opened start l1 l2 fits face _ _ ok]
  obtain st st' st1 vts vh vd ids where
    b: "load_lines example_fs_quad atoi ''a.obj'' True False init_state
          (fgets_lines [] example_quad_positions) = Inr st"
    and s: "yo_load_obj_line example_fs_quad atoi ''a.obj'' True False st ?rcd = Inr st'"
    and c: "if etype_e (elem_l st) \<noteq> yo_etype_triangle then flush st = Inr st1 else st1 = st"
    and tk: "yo__splitws ?rcd 1024 = ''f'' # vts"
    and p: "verts_plain (obj_vert_l st) vts (vhash_l st1, vert_l st1, []) = Inr (vh, vd, ids)"
    and et: "etype_e (elem_l st') = yo_etype_triangle"
    and el: "elem_e (elem_l st') =
               elem_e (elem_l st1) @
               concat (map (\<lambda>k. [ids ! 0, ids ! (k + 1), ids ! (k + 2)])
                         [0..<length ?refs - 2])"
    by auto
  from b have st: "st = ?st" by (simp add: example_four_positions_def)
  from tk tok have vts: "vts = ?refs" by simp
  from c t e have st1: "st1 = ?st" by (simp add: st flush_empty)
  from p pl have ids: "ids = [0, 1, 2, 3]" by (simp add: st st1 vts)
  have two: "[0..<length ?refs - 2] = [0, 1]" by (simp add: upt_rec)
  from el have "elem_e (elem_l st') = [0, 1, 2] @ [0, 2, 3]"
    unfolding two st1 e ids by simp
  with b s et have P: "\<exists>st st'.
      load_lines example_fs_quad atoi ''a.obj'' True False init_state
        (fgets_lines [] example_quad_positions) = Inr st \<and>
      yo_load_obj_line example_fs_quad atoi ''a.obj'' True False st ?rcd = Inr st' \<and>
      etype_e (elem_l st') = yo_etype_triangle \<and>
      elem_e (elem_l st') = [0, 1, 2] @ [0, 2, 3]"
    by (intro exI[of _ st] exI[of _ st']) simp
  have ld: "map_sum id (\<lambda>sc. map (\<lambda>s. (etype_s s, nelems_s s, elem_s s)) (shapes_sc sc)) ?r =
     Inr [(3, 2, [0, 1, 2] @ [0, 2, 3])]"
    by code_simp
  show ?thesis by (rule conjI[OF face conjI[OF P ld]])
qed


text \<open>
  A face of more vertices than the tokenizer takes. The tokens of the example are \<open>f\<close>,
  1022 times \<open>1\<close>, and the rest of the line from the 1023rd reference on.
\<close>

lemma isspace_facts: "isspace CHR '' ''" "isspace CHR 0x0A" "\<not> isspace CHR ''1''" "\<not> isspace CHR ''f''"
  by (simp_all add: isspace_def)

lemma ws_split_ones:
  "cur \<noteq> [] \<Longrightarrow> ws_split cur (concat (replicate n '' 1'') @ newline) = cur # replicate n ''1''"
proof (induction n arbitrary: cur)
  case 0
  then show ?case by (simp add: newline_def isspace_facts)
next
  case (Suc n)
  have "ws_split ''1'' (concat (replicate n '' 1'') @ newline) = ''1'' # replicate n ''1''"
    by (rule Suc.IH) simp
  with Suc.prems show ?case by (simp add: isspace_facts)
qed

lemma splitws_loop_ones:
  "toks \<noteq> [] \<Longrightarrow> length toks + n \<le> m \<Longrightarrow>
   splitws_loop m (concat (replicate n '' 1'') @ rest) toks False =
     splitws_loop m rest (toks @ replicate n ''1'') False"
proof (induction n arbitrary: toks)
  case 0
  then show ?case by simp
next
  case (Suc n)
  from Suc.prems have lt: "length toks < m" by simp
  have "splitws_loop m (concat (replicate n '' 1'') @ rest) (toks @ [''1'']) False =
     splitws_loop m rest ((toks @ [''1'']) @ replicate n ''1'') False"
    using Suc.prems by (intro Suc.IH) simp_all
  with lt show ?case by (simp add: isspace_facts replicate_append_same)
qed

lemma c_str_id: "CHR 0x00 \<notin> set s \<Longrightarrow> c_str s = s"
  by (auto simp: c_str_def takeWhile_eq_all_conv)

lemma replicate_snoc: "replicate (Suc n) x = replicate n x @ [x]"
  by (simp add: replicate_append_same)

lemma face_no_nul: "c_str example_face_1024 = example_face_1024"
  by (rule c_str_id) (auto simp: example_face_1024_def newline_def)

lemma face_words: "ws_words (c_str example_face_1024) = ''f'' # replicate 1024 ''1''"
  unfolding face_no_nul
  by (simp add: example_face_1024_def ws_words_def isspace_facts ws_split_ones)

lemma face_length: "length example_face_1024 = 2050"
  by (simp add: example_face_1024_def newline_def length_concat sum_list_replicate)

lemma face_tokens:
  "yo__splitws example_face_1024 1024 = ''f'' # replicate 1022 ''1'' @ [''1 1'' @ newline]"
proof -
  have r: "replicate 1024 '' 1'' = replicate 1023 '' 1'' @ ['' 1'']"
    using replicate_snoc[of 1023 "'' 1''"] by simp
  have f: "example_face_1024 = CHR ''f'' # concat (replicate 1023 '' 1'') @ ('' 1'' @ newline)"
    by (simp add: example_face_1024_def r)
  have "splitws_loop 1024 (concat (replicate 1023 '' 1'') @ ('' 1'' @ newline)) [''f''] False =
        splitws_loop 1024 ('' 1'' @ newline) ([''f''] @ replicate 1023 ''1'') False"
    by (rule splitws_loop_ones) simp_all
  also have "\<dots> = butlast ([''f''] @ replicate 1023 ''1'') @
                   [last ([''f''] @ replicate 1023 ''1'') @ ('' 1'' @ newline)]"
    by simp
  also have "\<dots> = ''f'' # replicate 1022 ''1'' @ [''1 1'' @ newline]"
  proof -
    have "replicate 1023 ''1'' = replicate 1022 ''1'' @ [''1'']"
      using replicate_snoc[of 1022 "''1''"] by simp
    then show ?thesis by simp
  qed
  finally show ?thesis
    unfolding yo__splitws_def face_no_nul by (simp add: f isspace_facts)
qed

lemma at_last_Inr: "el \<noteq> [] \<Longrightarrow> at el (int (length el) - 1) = Inr (last el)"
  by (cases el rule: rev_cases) (simp_all add: at_def)

text \<open>References that are all found in the hash, as the same vertex already added.\<close>

lemma verts_fan_same:
  assumes "\<forall>tk\<in>set tks. yo__parse_vert tk vh ov = Inr (x, vh)"
    and "yo__add_shape_vert vd x ov = Inr vd" and "3 < t \<longrightarrow> el \<noteq> []"
  shows "verts_fan ov t vi0 tks (vh, vd, el) =
           Inr (vh, vd, fan_out t vi0 el (replicate (length tks) (vid x)))"
  using assms
proof (induction tks arbitrary: t vi0 el)
  case Nil
  then show ?case by simp
next
  case (Cons tk tks)
  let ?vi0 = "if t = 1 then vid x else vi0"
  let ?el = "(if 3 < t then el @ [?vi0, last el] else el) @ [vid x]"
  from Cons.prems have p: "yo__parse_vert tk vh ov = Inr (x, vh)" by simp
  have ih: "verts_fan ov (t + 1) ?vi0 tks (vh, vd, ?el) =
              Inr (vh, vd, fan_out (t + 1) ?vi0 ?el (replicate (length tks) (vid x)))"
    using Cons.prems by (intro Cons.IH) simp_all
  show ?case
  proof (cases "3 < t")
    case True
    with Cons.prems have "el \<noteq> []" by simp
    from at_last_Inr[OF this] True p Cons.prems(2) ih show ?thesis
      by (simp add: ebind_def Let_def)
  next
    case False
    with p Cons.prems(2) ih show ?thesis
      by (simp add: ebind_def Let_def)
  qed
qed

lemma length_concat_triples:
  "length (concat (map (\<lambda>k. [f k, g k, h k]) xs)) = 3 * length xs"
  by (induction xs) simp_all

text \<open>
  C4 as stated does not hold. The face of 1024 vertices has 1025 words and fits a line, and the scene loaded from
  it has one shape of 1021 triangles, two less than the 1023 references that the tokenizer
  gave, where the record has 1024.
\<close>

theorem fan_triangulation_counterexample:
  "ws_words (c_str example_face_1024) = ''f'' # replicate 1024 ''1'' \<and>
   length example_face_1024 = 2050 \<and>
   (\<exists>sc s. yo_load_obj example_fs_face_1024 atoi ''a.obj'' True False = Inr sc \<and>
      shapes_sc sc = [s] \<and> etype_s s = yo_etype_triangle \<and> nelems_s s = 1021 \<and>
      length (elem_s s) = 3 * 1021)"
proof -
  let ?fs = example_fs_face_1024
  let ?vl = "''v 0 0 0'' @ newline"
  let ?ov = "\<lparr> pos_d = [(0, 0, 0)], texcoord_d = [], norm_d = [], color_d = [],
              radius_d = [] \<rparr> :: int yo__vertdata"
  let ?vda = "\<lparr> pos_d = [], texcoord_d = [], norm_d = [], color_d = [],
              radius_d = [] \<rparr> :: int yo__vertdata"
  let ?xn = "\<lparr> pos = 0, texcoord = -1, norm = -1, color = -1, radius = -1, vid = -1 \<rparr>"
  let ?x = "\<lparr> pos = 0, texcoord = -1, norm = -1, color = -1, radius = -1, vid = 0 \<rparr>"
  let ?vha = "\<lparr> nverts_h = 0, v = (\<lambda>i. []) \<rparr>"
  let ?vhb = "\<lparr> nverts_h = 1, v = (\<lambda>i. [])(0 := [?x]) \<rparr>"
  let ?sta = "(init_state :: int load_state)\<lparr> obj_vert_l := ?ov \<rparr>"
  let ?rest = "replicate 1021 ''1'' @ [''1 1'' @ newline]"
  define el where "el = fan_out 2 0 [0] (replicate (length ?rest) (vid ?x))"
  let ?stb = "?sta\<lparr> vhash_l := ?vhb, vert_l := ?ov,
                    elem_l := \<lparr> etype_e = yo_etype_triangle, elem_e = el \<rparr> \<rparr>"
  have lines: "fgets_lines [] (?vl @ example_face_1024 @ []) =
                 fgets_lines [] ?vl @ example_face_1024 # fgets_lines [] []"
  proof (rule fgets_lines_at)
    show "?vl = [] \<or> last ?vl = CHR 0x0A" by (simp add: newline_def)
    show "example_face_1024 \<noteq> []" by (simp add: example_face_1024_def)
    show "CHR 0x0A \<notin> set (butlast example_face_1024)"
      by (auto simp: example_face_1024_def newline_def butlast_append)
    show "length example_face_1024 \<le> 4095" by (simp add: face_length)
    show "last example_face_1024 = CHR 0x0A \<or> ([] :: string) = []" by simp
  qed
  have vline: "fgets_lines [] ?vl = [?vl]" by (simp add: newline_def)
  have tokv: "yo__splitws ?vl 1024 = ''v'' # [''0'', ''0'', ''0'']" by code_simp
  have a0: "atoi ''0'' = 0" by code_simp
  have stepv: "yo_load_obj_line ?fs atoi ''a.obj'' True False init_state ?vl = Inr ?sta"
    unfolding step_v[OF tokv]
    by (simp add: yo__parse_float3_def tok_at_def ebind_def a0 init_state_def)
  have ix: "vert_indices ''1'' ?ov = ?xn" by code_simp
  have ix': "vert_indices (''1 1'' @ newline) ?ov = ?xn" by code_simp
  have cr: "c_rem 0 yo__vhash_size = 0" by code_simp
  have parse1: "yo__parse_vert ''1'' ?vha ?ov = Inr (?x, ?vhb)"
    by (simp add: yo__parse_vert_def ix cr Let_def)
  have parse2: "yo__parse_vert ''1'' ?vhb ?ov = Inr (?x, ?vhb)"
    by (simp add: yo__parse_vert_def ix cr Let_def same_vert_def)
  have parse3: "yo__parse_vert (''1 1'' @ newline) ?vhb ?ov = Inr (?x, ?vhb)"
    unfolding yo__parse_vert_def Let_def ix' by (simp add: cr same_vert_def)
  have add1: "yo__add_shape_vert ?vda ?x ?ov = Inr ?ov"
    by (simp add: yo__add_shape_vert_def push_if_def at_def ebind_def)
  have add2: "yo__add_shape_vert ?ov ?x ?ov = Inr ?ov"
    by (simp add: yo__add_shape_vert_def)
  have all: "\<forall>tk\<in>set ?rest. yo__parse_vert tk ?vhb ?ov = Inr (?x, ?vhb)"
    using parse2 parse3 by (auto split: if_splits)
  have rest: "verts_fan ?ov 2 0 ?rest (?vhb, ?ov, [0]) = Inr (?vhb, ?ov, el)"
    unfolding el_def by (rule verts_fan_same[OF all add2]) simp
  have vts: "replicate 1022 ''1'' @ [''1 1'' @ newline] = ''1'' # ?rest"
    using replicate_Suc[of 1021 "''1''"] by simp
  from rest have rest':
    "verts_fan ?ov (Suc (Suc 0)) 0 ?rest (?vhb, ?ov, [0]) = Inr (?vhb, ?ov, el)"
    by (simp only: numeral_2_eq_2)
  have fan: "verts_fan ?ov 1 0 (''1'' # ?rest) (?vha, ?vda, []) = Inr (?vhb, ?ov, el)"
    using rest' by (simp add: parse1 add1 ebind_def)
  have tokf: "yo__splitws example_face_1024 1024 = ''f'' # ''1'' # ?rest"
    using face_tokens vts by simp
  have stepf: "yo_load_obj_line ?fs atoi ''a.obj'' True False ?sta example_face_1024 = Inr ?stb"
    using fan
    by (simp add: step_f[OF tokf] elem_record_def flush_empty ebind_def init_state_def
        yo_etype_triangle_def del: verts_fan.simps)
  have el1: "el = fan_out 1 0 [] (0 # 0 # 0 # replicate 1020 0)"
  proof -
    have r: "replicate (length ?rest) (vid ?x) = 0 # 0 # replicate 1020 (0 :: int)"
      using replicate_Suc[of 1021 "0 :: int"] replicate_Suc[of 1020 "0 :: int"] by simp
    have four: "Suc (Suc (Suc (Suc 0))) = 4" by simp
    from r show ?thesis by (simp add: el_def four)
  qed
  have len: "length el = 3 * 1021"
    unfolding el1 fan_out_record[OF refl] by (simp add: length_concat_triples)
  then have ne: "el \<noteq> []" by auto
  have "\<exists>st2 s. flush ?stb = Inr st2 \<and> shapes_l st2 = [s] \<and> etype_s s = yo_etype_triangle \<and>
          nelems_s s = 1021 \<and> length (elem_s s) = 3 * 1021"
    using len ne
    by (simp add: flush_def yo__add_shape_def shape_elems_def assert_def ebind_def Let_def
        init_state_def yo_etype_triangle_def yo_etype_point_def yo_etype_line_def)
  then obtain st2 s where fl: "flush ?stb = Inr st2" and sh: "shapes_l st2 = [s]"
    and s: "etype_s s = yo_etype_triangle" "nelems_s s = 1021" "length (elem_s s) = 3 * 1021"
    by blast
  have ll: "load_lines ?fs atoi ''a.obj'' True False init_state
              (fgets_lines [] (?vl @ example_face_1024 @ [])) = Inr ?stb"
    using stepv stepf unfolding lines vline by (simp add: ebind_def)
  let ?sc = "\<lparr> shapes_sc = shapes_l st2, materials_sc = materials_l st2,
               textures_sc = textures_l st2, cameras_sc = cameras_l st2,
               envs_sc = envs_l st2 \<rparr>"
  have ld: "yo_load_obj ?fs atoi ''a.obj'' True False = Inr ?sc"
    using ll fl by (simp add: yo_load_obj_def example_fs_face_1024_def ebind_def)
  have L: "\<exists>sc s. yo_load_obj ?fs atoi ''a.obj'' True False = Inr sc \<and>
      shapes_sc sc = [s] \<and> etype_s s = yo_etype_triangle \<and> nelems_s s = 1021 \<and>
      length (elem_s s) = 3 * 1021"
    using ld sh s by (intro exI[of _ ?sc] exI[of _ s]) simp
  show ?thesis by (rule conjI[OF face_words conjI[OF face_length L]])
qed



section \<open>Vertex deduplication\<close>

lemma vert_indices_vid: "vid (vert_indices str ov) = -1"
  by (simp add: vert_indices_def Let_def)

lemma same_vert_eq: "same_vert a b \<Longrightarrow> vid a = vid b \<Longrightarrow> a = b"
  by (simp add: same_vert_def)

lemma same_vert_vid: "same_vert a (b\<lparr>vid := k\<rparr>) = same_vert a b"
  by (simp add: same_vert_def)

lemma vhash_find_none:
  "vhash_find x es i < 0 \<Longrightarrow> 0 \<le> i \<Longrightarrow> \<forall>e\<in>set es. \<not> same_vert x e"
proof (induction es arbitrary: i)
  case Nil
  then show ?case by simp
next
  case (Cons e es)
  show ?case
  proof (cases "same_vert x e")
    case True
    with Cons.prems show ?thesis by simp
  next
    case False
    with Cons.prems have "vhash_find x es (i + 1) < 0" by simp
    from Cons.IH[OF this] Cons.prems False show ?thesis by simp
  qed
qed

lemma push_if_Inr:
  "push_if i dst pool = Inr r \<Longrightarrow>
   (i < 0 \<and> r = dst) \<or> (0 \<le> i \<and> i < int (length pool) \<and> r = dst @ [pool ! nat i])"
  by (auto simp: push_if_def at_def ebind_def split: if_splits)

lemma add_shape_vert_new:
  assumes "yo__add_shape_vert vert x ov = Inr vert'"
    and "\<not> (0 \<le> vid x \<and> vid x < int (length (pos_d vert)))"
  shows "push_if (pos x) (pos_d vert) (pos_d ov) = Inr (pos_d vert') \<and>
         push_if (norm x) (norm_d vert) (norm_d ov) = Inr (norm_d vert') \<and>
         push_if (texcoord x) (texcoord_d vert) (texcoord_d ov) = Inr (texcoord_d vert') \<and>
         push_if (color x) (color_d vert) (color_d ov) = Inr (color_d vert') \<and>
         push_if (radius x) (radius_d vert) (radius_d ov) = Inr (radius_d vert')"
  using assms
  by (auto simp: yo__add_shape_vert_def ebind_def split: sum.splits)

lemma add_shape_vert_old:
  "0 \<le> vid x \<Longrightarrow> vid x < int (length (pos_d vert)) \<Longrightarrow>
   yo__add_shape_vert vert x ov = Inr vert"
  by (simp add: yo__add_shape_vert_def)

lemma entries_snoc:
  "(\<exists>k<length (ts @ [t]). e = ((ts @ [t]) ! k)\<lparr>vid := int k\<rparr> \<and>
        h = c_rem (pos ((ts @ [t]) ! k)) s) \<longleftrightarrow>
   (\<exists>k<length ts. e = (ts ! k)\<lparr>vid := int k\<rparr> \<and> h = c_rem (pos (ts ! k)) s) \<or>
   (e = t\<lparr>vid := int (length ts)\<rparr> \<and> h = c_rem (pos t) s)"
  (is "?L \<longleftrightarrow> ?A \<or> ?B")
proof
  assume ?L
  then obtain k where k: "k < length (ts @ [t])"
    "e = ((ts @ [t]) ! k)\<lparr>vid := int k\<rparr>" "h = c_rem (pos ((ts @ [t]) ! k)) s" by blast
  show "?A \<or> ?B"
  proof (cases "k < length ts")
    case True
    with k have "e = (ts ! k)\<lparr>vid := int k\<rparr> \<and> h = c_rem (pos (ts ! k)) s"
      by (simp add: nth_append)
    with True show ?thesis by blast
  next
    case False
    with k(1) have "k = length ts" by simp
    with k show ?thesis by simp
  qed
next
  assume "?A \<or> ?B"
  then show ?L
  proof
    assume ?A
    then obtain k where "k < length ts" "e = (ts ! k)\<lparr>vid := int k\<rparr>"
      "h = c_rem (pos (ts ! k)) s" by blast
    then show ?L by (intro exI[of _ k]) (simp add: nth_append)
  next
    assume ?B
    then show ?L by (intro exI[of _ "length ts"]) simp
  qed
qed

lemma push_attr:
  assumes "push_if i dst pool = Inr r"
    and "dst = map (\<lambda>t. pool ! nat (f t)) (filter (\<lambda>t. 0 \<le> f t) ts)"
    and "f t = i"
  shows "r = map (\<lambda>t. pool ! nat (f t)) (filter (\<lambda>t. 0 \<le> f t) (ts @ [t])) \<and>
         i < int (length pool)"
  using push_if_Inr[OF assms(1)] assms(2,3) by auto

lemma dedup_found:
  assumes inv: "pend_ok ts vh vd ov"
    and h: "h = c_rem (pos t) yo__vhash_size"
    and t: "vid t = -1"
    and f: "0 \<le> p" "p = vhash_find t (v vh h) 0"
  shows "t \<in> set ts \<and> 0 \<le> vid (v vh h ! nat p) \<and> nat (vid (v vh h ! nat p)) < length ts \<and>
         ts ! nat (vid (v vh h ! nat p)) = t"
proof -
  let ?x = "v vh h ! nat p"
  from vhash_find_found[OF f(2)[symmetric] _ f(1)]
  have "nat p < length (v vh h)" "same_vert t ?x" by simp_all
  then have "?x \<in> set (v vh h)" by simp
  with inv obtain k where k: "k < length ts" "?x = (ts ! k)\<lparr>vid := int k\<rparr>"
    unfolding pend_ok_def by blast
  from \<open>same_vert t ?x\<close> k have sv: "same_vert t (ts ! k)" by (simp add: same_vert_vid)
  from inv k(1) have "vid (ts ! k) = -1" by (simp add: pend_ok_def)
  with sv t have "t = ts ! k" by (intro same_vert_eq) simp_all
  with k show ?thesis by simp
qed

lemma dedup_fresh:
  assumes inv: "pend_ok ts vh vd ov"
    and h: "h = c_rem (pos t) yo__vhash_size"
    and f: "vhash_find t (v vh h) 0 < 0"
  shows "t \<notin> set ts"
proof
  assume "t \<in> set ts"
  then obtain k where k: "k < length ts" "ts ! k = t" by (auto simp: in_set_conv_nth)
  with inv h have "(ts ! k)\<lparr>vid := int k\<rparr> \<in> set (v vh h)"
    unfolding pend_ok_def by blast
  moreover have "same_vert t ((ts ! k)\<lparr>vid := int k\<rparr>)"
    using k by (simp add: same_vert_def)
  ultimately show False using vhash_find_none[OF f] by auto
qed

lemma dedup_step:
  assumes inv: "pend_ok ts vh vd ov"
    and p: "yo__parse_vert str vh ov = Inr (x, vh')"
    and a: "yo__add_shape_vert vd x ov = Inr vd'"
    and nn: "0 \<le> pos (vert_indices str ov)"
  shows "(vert_indices str ov \<in> set ts \<longrightarrow> vh' = vh \<and> vd' = vd) \<and>
         pend_ok (if vert_indices str ov \<in> set ts then ts else ts @ [vert_indices str ov])
           vh' vd' ov \<and>
         0 \<le> vid x \<and>
         nat (vid x) <
           length (if vert_indices str ov \<in> set ts then ts else ts @ [vert_indices str ov]) \<and>
         (if vert_indices str ov \<in> set ts then ts else ts @ [vert_indices str ov]) ! nat (vid x)
           = vert_indices str ov"
proof -
  let ?t = "vert_indices str ov"
  let ?h = "c_rem (pos ?t) yo__vhash_size"
  let ?p = "vhash_find ?t (v vh ?h) 0"
  have tv: "vid ?t = -1" by (rule vert_indices_vid)
  from inv have len: "length (pos_d vd) = length ts" by (simp add: pend_ok_def)
  from inv have nv: "nverts_h vh = int (length ts)" by (simp add: pend_ok_def)
  from parse_vert_cases[OF p]
  consider (found) "0 \<le> ?p" "x = v vh ?h ! nat ?p" "vh' = vh"
    | (fresh) "?p < 0" "x = ?t\<lparr>vid := nverts_h vh\<rparr>"
        "vh' = vh\<lparr> v := (v vh)(?h := v vh ?h @ [?t\<lparr>vid := nverts_h vh\<rparr>]),
                   nverts_h := nverts_h vh + 1 \<rparr>"
    by blast
  then show ?thesis
  proof cases
    case found
    from dedup_found[OF inv refl tv found(1) refl] found(2)
    have m: "?t \<in> set ts" "0 \<le> vid x" "nat (vid x) < length ts" "ts ! nat (vid x) = ?t"
      by simp_all
    from m(2,3) len have "vid x < int (length (pos_d vd))" by simp
    from add_shape_vert_old[OF m(2) this] a have "vd' = vd" by simp
    with m found(3) inv show ?thesis by simp
  next
    case fresh
    from dedup_fresh[OF inv refl fresh(1)] have nt: "?t \<notin> set ts" .
    from fresh(2) nv have vx: "vid x = int (length ts)" by simp
    with len have "\<not> (0 \<le> vid x \<and> vid x < int (length (pos_d vd)))" by simp
    from add_shape_vert_new[OF a this] fresh(2)
    have ps: "push_if (pos ?t) (pos_d vd) (pos_d ov) = Inr (pos_d vd')"
      "push_if (norm ?t) (norm_d vd) (norm_d ov) = Inr (norm_d vd')"
      "push_if (texcoord ?t) (texcoord_d vd) (texcoord_d ov) = Inr (texcoord_d vd')"
      "push_if (color ?t) (color_d vd) (color_d ov) = Inr (color_d vd')"
      "push_if (radius ?t) (radius_d vd) (radius_d ov) = Inr (radius_d vd')"
      by simp_all
    from push_if_Inr[OF ps(1)] nn inv
    have pos': "pos_d vd' = map (\<lambda>t. pos_d ov ! nat (pos t)) (ts @ [?t])"
      and pr: "pos ?t < int (length (pos_d ov))"
      by (simp_all add: pend_ok_def)
    from inv have
      "norm_d vd = map (\<lambda>t. norm_d ov ! nat (norm t)) (filter (\<lambda>t. 0 \<le> norm t) ts)"
      "texcoord_d vd =
         map (\<lambda>t. texcoord_d ov ! nat (texcoord t)) (filter (\<lambda>t. 0 \<le> texcoord t) ts)"
      "color_d vd = map (\<lambda>t. color_d ov ! nat (color t)) (filter (\<lambda>t. 0 \<le> color t) ts)"
      "radius_d vd = map (\<lambda>t. radius_d ov ! nat (radius t)) (filter (\<lambda>t. 0 \<le> radius t) ts)"
      by (simp_all add: pend_ok_def)
    from push_attr[OF ps(2) this(1) refl] push_attr[OF ps(3) this(2) refl]
      push_attr[OF ps(4) this(3) refl] push_attr[OF ps(5) this(4) refl]
    have attrs:
      "norm_d vd' = map (\<lambda>t. norm_d ov ! nat (norm t)) (filter (\<lambda>t. 0 \<le> norm t) (ts @ [?t]))"
      "texcoord_d vd' = map (\<lambda>t. texcoord_d ov ! nat (texcoord t))
                          (filter (\<lambda>t. 0 \<le> texcoord t) (ts @ [?t]))"
      "color_d vd' = map (\<lambda>t. color_d ov ! nat (color t))
                       (filter (\<lambda>t. 0 \<le> color t) (ts @ [?t]))"
      "radius_d vd' = map (\<lambda>t. radius_d ov ! nat (radius t))
                        (filter (\<lambda>t. 0 \<le> radius t) (ts @ [?t]))"
      and rng: "norm ?t < int (length (norm_d ov))" "texcoord ?t < int (length (texcoord_d ov))"
        "color ?t < int (length (color_d ov))" "radius ?t < int (length (radius_d ov))"
      by simp_all
    from nn pr rng have rp: "refs_in_pools ?t ov" by (simp add: refs_in_pools_def)
    have ent: "\<forall>h e. e \<in> set (v vh' h) \<longleftrightarrow>
        (\<exists>k<length (ts @ [?t]). e = ((ts @ [?t]) ! k)\<lparr>vid := int k\<rparr> \<and>
                        h = c_rem (pos ((ts @ [?t]) ! k)) yo__vhash_size)"
    proof (intro allI)
      fix h e
      from inv have old: "e \<in> set (v vh h) \<longleftrightarrow>
        (\<exists>k<length ts. e = (ts ! k)\<lparr>vid := int k\<rparr> \<and>
                        h = c_rem (pos (ts ! k)) yo__vhash_size)"
        unfolding pend_ok_def by blast
      have "e \<in> set (v vh' h) \<longleftrightarrow>
            e \<in> set (v vh h) \<or> (e = ?t\<lparr>vid := int (length ts)\<rparr> \<and> h = ?h)"
        using fresh(3) nv by auto
      then show "e \<in> set (v vh' h) \<longleftrightarrow>
        (\<exists>k<length (ts @ [?t]). e = ((ts @ [?t]) ! k)\<lparr>vid := int k\<rparr> \<and>
                        h = c_rem (pos ((ts @ [?t]) ! k)) yo__vhash_size)"
        unfolding entries_snoc old by simp
    qed
    from inv nt tv rp have d: "distinct (ts @ [?t])"
      "\<forall>t\<in>set (ts @ [?t]). vid t = -1 \<and> refs_in_pools t ov"
      by (simp_all add: pend_ok_def)
    from fresh(3) nv have n': "nverts_h vh' = int (length (ts @ [?t]))" by simp
    from d n' ent pos' attrs have "pend_ok (ts @ [?t]) vh' vd' ov"
      unfolding pend_ok_def by blast
    with nt vx show ?thesis by simp
  qed
qed

lemma first_seen_Nil: "first_seen s [] = s"
  by (simp add: first_seen_def)

lemma first_seen_Cons:
  "first_seen s (t # rs) = first_seen (if t \<in> set s then s else s @ [t]) rs"
  by (simp add: first_seen_def)

lemma first_seen_extends: "\<exists>more. first_seen s rs = s @ more"
proof (induction rs arbitrary: s)
  case Nil
  then show ?case by (simp add: first_seen_Nil)
next
  case (Cons t rs)
  from Cons.IH[of "if t \<in> set s then s else s @ [t]"] obtain m where
    "first_seen (if t \<in> set s then s else s @ [t]) rs = (if t \<in> set s then s else s @ [t]) @ m"
    by blast
  then show ?case by (cases "t \<in> set s") (simp_all add: first_seen_Cons)
qed

lemma first_seen_nth:
  assumes "k < length s"
  shows "k < length (first_seen s rs) \<and> first_seen s rs ! k = s ! k"
proof -
  from first_seen_extends[of s rs] obtain m where "first_seen s rs = s @ m" by blast
  with assms show ?thesis by (simp add: nth_append)
qed

text \<open>
  C1, amended. The vertex loop of a record (\<open>verts_plain\<close>; the loops of triangulated
  faces and lines run the same calls, \<open>verts_fan_plain\<close> and \<open>verts_strip_plain\<close>), from a
  shape under assembly that has seen the distinct references \<open>ts\<close>, over tokens whose
  references all have a position index of at least 0: afterwards the shape has seen
  \<open>ts\<close> and the new references in the order of their first occurrence, each distinct
  reference has exactly one entry in the vertex arrays and in the hash, with its place in
  that list as local id, and the id pushed for a token is the place of its reference:
  equal references get equal ids, and a shape that starts empty numbers them from 0.
\<close>

theorem vertex_dedup:
  assumes inv: "pend_ok ts vh vd ov"
    and run: "verts_plain ov toks (vh, vd, el) = Inr (vh', vd', el')"
    and nn: "\<forall>tk\<in>set toks. 0 \<le> pos (vert_indices tk ov)"
  shows "\<exists>ids. pend_ok (first_seen ts (map (\<lambda>tk. vert_indices tk ov) toks)) vh' vd' ov \<and>
           el' = el @ ids \<and> length ids = length toks \<and>
           (\<forall>j<length toks.
              0 \<le> ids ! j \<and>
              nat (ids ! j) < length (first_seen ts (map (\<lambda>tk. vert_indices tk ov) toks)) \<and>
              first_seen ts (map (\<lambda>tk. vert_indices tk ov) toks) ! nat (ids ! j) =
                vert_indices (toks ! j) ov)"
  using inv run nn
proof (induction toks arbitrary: ts vh vd el)
  case Nil
  then show ?case by (simp add: first_seen_Nil)
next
  case (Cons tk tks)
  let ?t = "vert_indices tk ov"
  let ?ts1 = "if ?t \<in> set ts then ts else ts @ [?t]"
  let ?refs = "map (\<lambda>tk. vert_indices tk ov) tks"
  from verts_plain_Cons_Inr[OF Cons.prems(2)] obtain x :: yo__vert and vh1 vd1 where
    p: "yo__parse_vert tk vh ov = Inr (x, vh1)" and
    a: "yo__add_shape_vert vd x ov = Inr vd1" and
    r: "verts_plain ov tks (vh1, vd1, el @ [vid x]) = Inr (vh', vd', el')"
    by blast
  from Cons.prems(3) have nn0: "0 \<le> pos ?t" and nns: "\<forall>tk\<in>set tks. 0 \<le> pos (vert_indices tk ov)"
    by simp_all
  from dedup_step[OF Cons.prems(1) p a nn0]
  have inv1: "pend_ok ?ts1 vh1 vd1 ov" and x0: "0 \<le> vid x" and xl: "nat (vid x) < length ?ts1"
    and xt: "?ts1 ! nat (vid x) = ?t"
    by simp_all
  from Cons.IH[OF inv1 r nns] obtain ids where
    i: "pend_ok (first_seen ?ts1 ?refs) vh' vd' ov" "el' = (el @ [vid x]) @ ids"
      "length ids = length tks"
    and j: "\<forall>j<length tks. 0 \<le> ids ! j \<and> nat (ids ! j) < length (first_seen ?ts1 ?refs) \<and>
              first_seen ?ts1 ?refs ! nat (ids ! j) = vert_indices (tks ! j) ov"
    by blast
  have fs: "first_seen ts (map (\<lambda>tk. vert_indices tk ov) (tk # tks)) = first_seen ?ts1 ?refs"
    by (simp add: first_seen_Cons)
  have all: "\<forall>j<length (tk # tks).
              0 \<le> (vid x # ids) ! j \<and>
              nat ((vid x # ids) ! j) < length (first_seen ?ts1 ?refs) \<and>
              first_seen ?ts1 ?refs ! nat ((vid x # ids) ! j) = vert_indices ((tk # tks) ! j) ov"
  proof (intro allI impI)
    fix j assume jl: "j < length (tk # tks)"
    show "0 \<le> (vid x # ids) ! j \<and>
              nat ((vid x # ids) ! j) < length (first_seen ?ts1 ?refs) \<and>
              first_seen ?ts1 ?refs ! nat ((vid x # ids) ! j) = vert_indices ((tk # tks) ! j) ov"
    proof (cases j)
      case 0
      from first_seen_nth[OF xl, of ?refs] x0 xt show ?thesis by (simp add: 0)
    next
      case (Suc m)
      with jl j show ?thesis by simp
    qed
  qed
  show ?case
    unfolding fs using i all
    by (intro exI[of _ "vid x # ids"]) simp
qed

lemma pend_ok_fresh:
  "pend_ok [] (vhash_clear vh)
     \<lparr> pos_d = [], texcoord_d = [], norm_d = [], color_d = [], radius_d = [] \<rparr> ov"
  by (simp add: pend_ok_def vhash_clear_def)

lemma pend_ok_init: "pend_ok [] (vhash_l init_state) (vert_l init_state) ov"
  by (simp add: pend_ok_def init_state_def)

lemma refs_in_pools_grow:
  "pools_grow ov ov' \<Longrightarrow> refs_in_pools t ov \<Longrightarrow> refs_in_pools t ov'"
  by (auto simp: pools_grow_def refs_in_pools_def)

lemma pend_ok_grow:
  assumes g: "pools_grow ov ov'" and inv: "pend_ok ts vh vd ov"
  shows "pend_ok ts vh vd ov'"
proof -
  from g obtain ps tcs ns cs rs where
    ov': "ov' = \<lparr> pos_d = pos_d ov @ ps, texcoord_d = texcoord_d ov @ tcs,
                 norm_d = norm_d ov @ ns, color_d = color_d ov @ cs,
                 radius_d = radius_d ov @ rs \<rparr>"
    by (auto simp: pools_grow_def)
  from inv have r: "\<forall>t\<in>set ts. refs_in_pools t ov" by (simp add: pend_ok_def)
  have e1: "map (\<lambda>t. pos_d ov' ! nat (pos t)) ts = map (\<lambda>t. pos_d ov ! nat (pos t)) ts"
    using r by (auto simp: ov' refs_in_pools_def nth_append)
  have e2: "map (\<lambda>t. norm_d ov' ! nat (norm t)) (filter (\<lambda>t. 0 \<le> norm t) ts) =
            map (\<lambda>t. norm_d ov ! nat (norm t)) (filter (\<lambda>t. 0 \<le> norm t) ts)"
    using r by (auto simp: ov' refs_in_pools_def nth_append)
  have e3: "map (\<lambda>t. texcoord_d ov' ! nat (texcoord t)) (filter (\<lambda>t. 0 \<le> texcoord t) ts) =
            map (\<lambda>t. texcoord_d ov ! nat (texcoord t)) (filter (\<lambda>t. 0 \<le> texcoord t) ts)"
    using r by (auto simp: ov' refs_in_pools_def nth_append)
  have e4: "map (\<lambda>t. color_d ov' ! nat (color t)) (filter (\<lambda>t. 0 \<le> color t) ts) =
            map (\<lambda>t. color_d ov ! nat (color t)) (filter (\<lambda>t. 0 \<le> color t) ts)"
    using r by (auto simp: ov' refs_in_pools_def nth_append)
  have e5: "map (\<lambda>t. radius_d ov' ! nat (radius t)) (filter (\<lambda>t. 0 \<le> radius t) ts) =
            map (\<lambda>t. radius_d ov ! nat (radius t)) (filter (\<lambda>t. 0 \<le> radius t) ts)"
    using r by (auto simp: ov' refs_in_pools_def nth_append)
  from inv refs_in_pools_grow[OF g] show ?thesis
    unfolding pend_ok_def e1 e2 e3 e4 e5 by blast
qed

lemma verts_strip_plain:
  "verts_strip ov t toks (vh, vd, el) = Inr (vh', vd', el') \<Longrightarrow>
   \<exists>ids. verts_plain ov toks (vh, vd, acc) = Inr (vh', vd', acc @ ids) \<and>
         length ids = length toks"
proof (induction toks arbitrary: t vh vd el acc)
  case Nil
  then show ?case by simp
next
  case (Cons tk tks)
  from Cons.prems obtain x :: yo__vert and vh1 where p: "yo__parse_vert tk vh ov = Inr (x, vh1)"
    by (auto simp: ebind_def split: sum.splits)
  with Cons.prems obtain vd1 where a: "yo__add_shape_vert vd x ov = Inr vd1"
    by (auto simp: ebind_def split: sum.splits)
  with p Cons.prems obtain el1 where
    r: "verts_strip ov (t + 1) tks (vh1, vd1, el1 @ [vid x]) = Inr (vh', vd', el')"
    by (auto simp: ebind_def split: sum.splits if_splits)
  from Cons.IH[OF r, of "acc @ [vid x]"] obtain ids where
    "verts_plain ov tks (vh1, vd1, acc @ [vid x]) = Inr (vh', vd', (acc @ [vid x]) @ ids)"
    "length ids = length tks"
    by blast
  with p a show ?case by (intro exI[of _ "vid x # ids"]) (simp add: ebind_def)
qed

text \<open>
  Five references to three positions, from an empty shape: the ids are 0, 1, 0, 1, 2 and
  the shape has three vertices.
\<close>

theorem vertex_dedup_witness:
  "pend_ok [] example_vhash example_no_vert example_pools \<and>
   list_all (\<lambda>tk. 0 \<le> pos (vert_indices tk example_pools))
     [''1'', ''2'', ''1'', ''2'', ''3''] \<and>
   (\<exists>vh' vd'.
      verts_plain example_pools [''1'', ''2'', ''1'', ''2'', ''3'']
        (example_vhash, example_no_vert, []) = Inr (vh', vd', [0, 1, 0, 1, 2]) \<and>
      pos_d vd' = [(0, 0, 0), (1, 0, 0), (1, 1, 0)] \<and>
      pend_ok (first_seen [] (map (\<lambda>tk. vert_indices tk example_pools)
                                [''1'', ''2'', ''1'', ''2'', ''3''])) vh' vd' example_pools) \<and>
   length (first_seen [] (map (\<lambda>tk. vert_indices tk example_pools)
                            [''1'', ''2'', ''1'', ''2'', ''3''])) = 3"
proof -
  let ?toks = "[''1'', ''2'', ''1'', ''2'', ''3'']"
  let ?run = "verts_plain example_pools ?toks (example_vhash, example_no_vert, [])"
  have inv: "pend_ok [] example_vhash example_no_vert example_pools"
    by (simp add: pend_ok_def example_vhash_def example_no_vert_def)
  have nn: "\<forall>tk\<in>set ?toks. 0 \<le> pos (vert_indices tk example_pools)" by code_simp
  have "\<not> isl ?run" by code_simp
  then obtain vh' vd' el' where run: "?run = Inr (vh', vd', el')"
    by (cases ?run) auto
  have "map_sum id (\<lambda>r. snd (snd r)) ?run = Inr [0, 1, 0, 1, 2]" by code_simp
  with run have el: "el' = [0, 1, 0, 1, 2]" by simp
  have "map_sum id (\<lambda>r. pos_d (fst (snd r))) ?run = Inr [(0, 0, 0), (1, 0, 0), (1, 1, 0)]"
    by code_simp
  with run have ps: "pos_d vd' = [(0, 0, 0), (1, 0, 0), (1, 1, 0)]" by simp
  have n: "length (first_seen [] (map (\<lambda>tk. vert_indices tk example_pools) ?toks)) = 3"
    by code_simp
  from vertex_dedup[OF inv run nn]
  have post: "pend_ok (first_seen [] (map (\<lambda>tk. vert_indices tk example_pools) ?toks))
                vh' vd' example_pools"
    by blast
  have P: "\<exists>vh' vd'. ?run = Inr (vh', vd', [0, 1, 0, 1, 2]) \<and>
      pos_d vd' = [(0, 0, 0), (1, 0, 0), (1, 1, 0)] \<and>
      pend_ok (first_seen [] (map (\<lambda>tk. vert_indices tk example_pools) ?toks))
        vh' vd' example_pools"
    using run el ps post by (intro exI[of _ vh'] exI[of _ vd']) simp
  from nn have nn': "list_all (\<lambda>tk. 0 \<le> pos (vert_indices tk example_pools)) ?toks"
    by (simp only: list_all_iff)
  show ?thesis by (rule conjI[OF inv conjI[OF nn' conjI[OF P n]]])
qed

text \<open>
  C1 as stated does not hold. The first reference of \<open>p -1048577 1 1\<close> resolves to the
  position index \<open>-1048576\<close>, whose remainder by the number of buckets is 0: it enters the
  hash with id 0 and pushes no position. The test of \<^verbatim>\<open>yo__add_shape_vert\<close>, which compares
  the id with the length of the position array, then takes the two references to
  position 0 (id 1) for new ones each time, and the shape gets two entries for that one
  reference.
\<close>

theorem vertex_dedup_counterexample:
  "vert_indices ''-1048577'' example_one_position =
     \<lparr> pos = -1048576, texcoord = -1, norm = -1, color = -1, radius = -1, vid = -1 \<rparr> \<and>
   vert_indices ''1'' example_one_position =
     \<lparr> pos = 0, texcoord = -1, norm = -1, color = -1, radius = -1, vid = -1 \<rparr> \<and>
   yo_load_obj example_fs_dup atoi ''a.obj'' False False =
     Inr \<lparr> shapes_sc =
             [\<lparr> name_s = [], groupname_s = [], matname_s = [], matid_s = - 1,
                nelems_s = 3, elem_s = [0, 1, 1], etype_s = 1, nverts_s = 2,
                pos_s = [(0, 0, 0), (0, 0, 0)], norm_s = [], texcoord_s = [],
                color_s = [], radius_s = [], xformed_s = False,
                xform_s = [1, 0, 0, 0, 1, 0, 0, 0, 1, 0, 0, 0] \<rparr>],
           materials_sc = [], textures_sc = [], cameras_sc = [], envs_sc = [] \<rparr>"
  by code_simp


section \<open>Binary dumps\<close>


text \<open>
  The shapes of a dump are the shapes its field reads give, each with colour and radius
  cleared or kept and the material index set.
\<close>

lemma objbin_shapes_raw:
  "objbin_shapes ext ms n f =
     ebind (fread_shapes n f) (\<lambda>(raw, f').
       Inr (map (\<lambda>s. s\<lparr> color_s := (if ext then [] else color_s s),
                radius_s := (if ext then [] else radius_s s),
                matid_s := find_matid_exact (matname_s s) ms 0 \<rparr>) raw, f'))"
proof (induction n arbitrary: f)
  case 0
  show ?case by (simp add: ebind_def)
next
  case (Suc n)
  show ?case
    by (simp add: Suc.IH objbin_shape_def ebind_def split: sum.splits prod.splits)
qed

text \<open>The bytes of the example dump, and what is read from them.\<close>

lemma bytes_of_word_0: "bytes_of_word 0 = [CHR 0x00, CHR 0x00, CHR 0x00, CHR 0x00]"
  by (simp add: bytes_of_word_def char_of_def bit_0)

lemma bytes_of_int_0: "bytes_of_int 0 = [CHR 0x00, CHR 0x00, CHR 0x00, CHR 0x00]"
  by (simp add: bytes_of_int_def bytes_of_word_def char_of_def bit_0)

lemma bytes_of_int_1: "bytes_of_int 1 = [CHR 0x01, CHR 0x00, CHR 0x00, CHR 0x00]"
  by (simp add: bytes_of_int_def bytes_of_word_def char_of_def bit_0)

lemma bytes_of_int_2: "bytes_of_int 2 = [CHR 0x02, CHR 0x00, CHR 0x00, CHR 0x00]"
  by (simp add: bytes_of_int_def bytes_of_word_def char_of_def bit_0)

lemma bytes_of_float_one: "bytes_of_word float_one = [CHR 0x00, CHR 0x00, CHR 0x80, CHR 0x3F]"
  by (simp add: float_one_def bytes_of_word_def char_of_def bit_0)

lemma bytes_of_magic: "bytes_of_int yo__binmagic = [CHR 0x82, CHR 0xE7, CHR 0x45, CHR 0xAF]"
  by (simp add: yo__binmagic_def bytes_of_int_def bytes_of_word_def char_of_def bit_0)

lemma example_dump_bytes:
  "example_dump =
     [CHR 0x82, CHR 0xE7, CHR 0x45, CHR 0xAF,
      CHR 0x00, CHR 0x00, CHR 0x00, CHR 0x00,
      CHR 0x00, CHR 0x00, CHR 0x00, CHR 0x00,
      CHR 0x00, CHR 0x00, CHR 0x00, CHR 0x00,
      CHR 0x01, CHR 0x00, CHR 0x00, CHR 0x00,
      CHR 0x02, CHR 0x00, CHR 0x00, CHR 0x00, CHR ''p'', CHR 0x00,
      CHR 0x01, CHR 0x00, CHR 0x00, CHR 0x00, CHR 0x00,
      CHR 0x01, CHR 0x00, CHR 0x00, CHR 0x00, CHR 0x00,
      CHR 0x01, CHR 0x00, CHR 0x00, CHR 0x00,
      CHR 0x01, CHR 0x00, CHR 0x00, CHR 0x00, CHR 0x00, CHR 0x00, CHR 0x00, CHR 0x00,
      CHR 0x01, CHR 0x00, CHR 0x00, CHR 0x00,
      CHR 0x01, CHR 0x00, CHR 0x00, CHR 0x00,
      CHR 0x01, CHR 0x00, CHR 0x00, CHR 0x00,
      CHR 0x00, CHR 0x00, CHR 0x00, CHR 0x00, CHR 0x00, CHR 0x00, CHR 0x00, CHR 0x00,
      CHR 0x00, CHR 0x00, CHR 0x00, CHR 0x00,
      CHR 0x00, CHR 0x00, CHR 0x00, CHR 0x00,
      CHR 0x00, CHR 0x00, CHR 0x00, CHR 0x00,
      CHR 0x01, CHR 0x00, CHR 0x00, CHR 0x00,
      CHR 0x00, CHR 0x00, CHR 0x80, CHR 0x3F, CHR 0x00, CHR 0x00, CHR 0x00, CHR 0x00,
      CHR 0x00, CHR 0x00, CHR 0x00, CHR 0x00,
      CHR 0x01, CHR 0x00, CHR 0x00, CHR 0x00,
      CHR 0x00, CHR 0x00, CHR 0x80, CHR 0x3F]"
  by (simp add: example_dump_def yo__fwrite_binvalue_int_def yo__fwrite_binvector_def
      yo__fwrite_binstr_def bytes_of_vec3f_def yo_etype_point_def
      bytes_of_word_0 bytes_of_int_0 bytes_of_int_1 bytes_of_int_2 bytes_of_float_one
      bytes_of_magic)

lemmas rd_defs =
  rd_str_def rd_int_def rd_float_def rd_vec3f_def rd_vector_def rd_count_def
  yo__fread_binstr_def yo__fread_binvalue_int_def yo__fread_binvalue_float_def
  yo__fread_binvalue_vec3f_def yo__fread_binvector_def fread1_def
  int_of_bytes_def float_of_bytes_def vec3f_of_bytes_def vec2f_of_bytes_def
  ebind_def assert_def c_str_def Let_def

lemma example_shape:
  "fread_shape (drop 20 example_dump) =
     Inr (\<lparr> name_s = ''p'', groupname_s = [], matname_s = [], matid_s = -1,
             nelems_s = 1, elem_s = [0], etype_s = yo_etype_point, nverts_s = 1,
             pos_s = [(0, 0, 0)], norm_s = [], texcoord_s = [],
             color_s = [(float_one, 0, 0)], radius_s = [float_one],
             xformed_s = False, xform_s = ym_identity_affine3f_bits \<rparr>, [])"
  by (simp add: example_dump_bytes fread_shape_def rd_defs float_one_def yo_etype_point_def)

lemma example_head:
  "objbin_head example_dump = Inr ([], [], [], [], drop 16 example_dump)"
  by (simp add: example_dump_bytes objbin_head_def rd_defs yo__binmagic_def)

lemma example_count:
  "yo__fread_binvalue_int 0 (drop 16 example_dump) = (True, 1, drop 20 example_dump)"
  by (simp add: example_dump_bytes rd_defs)

lemma example_dumped:
  "dumped_shapes example_fs_dump ''p.objbin'' =
     Inr [\<lparr> name_s = ''p'', groupname_s = [], matname_s = [], matid_s = -1,
            nelems_s = 1, elem_s = [0], etype_s = yo_etype_point, nverts_s = 1,
            pos_s = [(0, 0, 0)], norm_s = [], texcoord_s = [],
            color_s = [(float_one, 0, 0)], radius_s = [float_one],
            xformed_s = False, xform_s = ym_identity_affine3f_bits \<rparr>]"
  by (simp add: dumped_shapes_def example_fs_dump_def example_head rd_count_def rd_int_def
      example_count example_shape ebind_def)

lemma example_loads:
  "\<exists>sc. yo_load_objbin example_fs_dump ''p.objbin'' ext = Inr sc"
  by (simp add: yo_load_objbin_def example_fs_dump_def example_head rd_count_def rd_int_def
      example_count objbin_shapes_raw example_shape ebind_def)

text \<open>
  C10. When \<^verbatim>\<open>yo_load_objbin\<close> returns a scene, its shapes are as many as the dump's shape
  records; with \<open>ext\<close> set every shape has an empty colour and an empty radius array,
  whatever the records hold, and with \<open>ext\<close> unset every shape has the colour and radius
  vectors that the reads of its record gave.
\<close>

theorem objbin_color_radius:
  assumes "yo_load_objbin fs filename ext = Inr sc"
  shows "\<exists>raw. dumped_shapes fs filename = Inr raw \<and>
           length (shapes_sc sc) = length raw \<and>
           (ext \<longrightarrow> list_all (\<lambda>s. color_s s = [] \<and> radius_s s = []) (shapes_sc sc)) \<and>
           (\<not> ext \<longrightarrow> map color_s (shapes_sc sc) = map color_s raw \<and>
                      map radius_s (shapes_sc sc) = map radius_s raw)"
proof -
  from assms obtain content where opened: "fs filename = Some content"
    by (auto simp: yo_load_objbin_def split: option.splits)
  from assms opened obtain cams es ms ts f7 where
    head: "objbin_head content = Inr (cams, es, ms, ts, f7)"
    by (cases "objbin_head content") (auto simp: yo_load_objbin_def ebind_def)
  obtain ok n f8 where cnt: "yo__fread_binvalue_int 0 f7 = (ok, n, f8)"
    by (cases "yo__fread_binvalue_int 0 f7") auto
  from assms opened head cnt have nonneg: "\<not> n < 0"
    by (auto simp: yo_load_objbin_def ebind_def rd_count_def rd_int_def split: if_splits)
  from assms opened head cnt nonneg obtain raw f9 where
    raw: "fread_shapes (nat n) f8 = Inr (raw, f9)"
    by (cases "fread_shapes (nat n) f8")
       (auto simp: yo_load_objbin_def ebind_def rd_count_def rd_int_def objbin_shapes_raw)
  from assms opened head cnt nonneg raw have shapes:
    "shapes_sc sc =
       map (\<lambda>s. s\<lparr> color_s := (if ext then [] else color_s s),
                   radius_s := (if ext then [] else radius_s s),
                   matid_s := find_matid_exact (matname_s s) ms 0 \<rparr>) raw"
    by (auto simp: yo_load_objbin_def ebind_def rd_count_def rd_int_def objbin_shapes_raw)
  have dumped: "dumped_shapes fs filename = Inr raw"
    using opened head cnt nonneg raw
    by (simp add: dumped_shapes_def ebind_def rd_count_def rd_int_def)
  show ?thesis
    using dumped shapes by (simp add: list_all_iff comp_def)
qed

text \<open>
  The example dump holds one point with a colour and a radius: loaded with \<open>ext\<close> unset
  the shape has both, loaded with \<open>ext\<close> set it has neither.
\<close>

theorem objbin_color_radius_witness:
  "(\<exists>sc raw. yo_load_objbin example_fs_dump ''p.objbin'' False = Inr sc \<and>
      dumped_shapes example_fs_dump ''p.objbin'' = Inr raw \<and>
      map color_s raw = [[(float_one, 0, 0)]] \<and> map radius_s raw = [[float_one]] \<and>
      map color_s (shapes_sc sc) = [[(float_one, 0, 0)]] \<and>
      map radius_s (shapes_sc sc) = [[float_one]]) \<and>
   (\<exists>sc. yo_load_objbin example_fs_dump ''p.objbin'' True = Inr sc \<and>
      map color_s (shapes_sc sc) = [[]] \<and> map radius_s (shapes_sc sc) = [[]])"
proof -
  obtain sc1 where l1: "yo_load_objbin example_fs_dump ''p.objbin'' False = Inr sc1"
    using example_loads by blast
  obtain sc2 where l2: "yo_load_objbin example_fs_dump ''p.objbin'' True = Inr sc2"
    using example_loads by blast
  from objbin_color_radius [OF l1] have kept:
    "map color_s (shapes_sc sc1) = [[(float_one, 0, 0)]] \<and>
     map radius_s (shapes_sc sc1) = [[float_one]]"
    by (simp add: example_dumped)
  from objbin_color_radius [OF l2] have gone:
    "map color_s (shapes_sc sc2) = [[]] \<and> map radius_s (shapes_sc sc2) = [[]]"
    by (auto simp: example_dumped list_all_iff length_Suc_conv)
  have A: "\<exists>sc raw. yo_load_objbin example_fs_dump ''p.objbin'' False = Inr sc \<and>
      dumped_shapes example_fs_dump ''p.objbin'' = Inr raw \<and>
      map color_s raw = [[(float_one, 0, 0)]] \<and> map radius_s raw = [[float_one]] \<and>
      map color_s (shapes_sc sc) = [[(float_one, 0, 0)]] \<and>
      map radius_s (shapes_sc sc) = [[float_one]]"
    using l1 kept by (simp add: example_dumped)
  have B: "\<exists>sc. yo_load_objbin example_fs_dump ''p.objbin'' True = Inr sc \<and>
      map color_s (shapes_sc sc) = [[]] \<and> map radius_s (shapes_sc sc) = [[]]"
    using l2 gone by simp
  show ?thesis by (rule conjI [OF A B])
qed

end
